theory Spec2Isabelle
  imports Complex_Main
begin

section \<open>Strings as Python sees them\<close>

text \<open>
  A Python \<open>str\<close> is modelled as a \<open>string\<close> whose characters are the code points
  below 256. The white space of \<open>str.strip\<close>, \<open>str.split\<close> and of the regular
  expression class \<open>\s\<close> is the same set of characters (\<open>str.isspace\<close>); below 256
  these are the code points 9-13, 28-32, 133 and 160.
\<close>

definition whitespace_chars :: "char list" where
  "whitespace_chars = [CHR 0x09, CHR 0x0A, CHR 0x0B, CHR 0x0C, CHR 0x0D,
                       CHR 0x1C, CHR 0x1D, CHR 0x1E, CHR 0x1F, CHR 0x20, CHR 0x85, CHR 0xA0]"

definition isspace :: "char \<Rightarrow> bool" where
  "isspace c = (c \<in> set whitespace_chars)"

text \<open>\<open>s.strip()\<close>: leading and trailing white space removed.\<close>

definition strip :: "string \<Rightarrow> string" where
  "strip s = rev (dropWhile isspace (rev (dropWhile isspace s)))"

text \<open>
  \<open>s.split()\<close> without a separator: the maximal runs of characters that are not
  white space, in order. \<open>cur\<close> is the word being read.
\<close>

fun str_split_from :: "string \<Rightarrow> string \<Rightarrow> string list" where
  "str_split_from cur [] = (if cur = [] then [] else [cur])"
| "str_split_from cur (c # cs) =
     (if isspace c then (if cur = [] then [] else [cur]) @ str_split_from [] cs
      else str_split_from (cur @ [c]) cs)"

definition str_split :: "string \<Rightarrow> string list" where
  "str_split s = str_split_from [] s"

text \<open>
  \<open>s.lower()\<close>: below 256 the letters with a lower-case form are A-Z and the
  Latin-1 capitals 192-222 other than the multiplication sign 215; each maps to the
  code point 32 above it.
\<close>

definition lower_char :: "char \<Rightarrow> char" where
  "lower_char c =
     (let n = (of_char c :: nat)
      in if (65 \<le> n \<and> n \<le> 90) \<or> (192 \<le> n \<and> n \<le> 222 \<and> n \<noteq> 215)
         then char_of (n + 32) else c)"

definition lower :: "string \<Rightarrow> string" where
  "lower s = map lower_char s"

section \<open>Sentence splitter\<close>

definition is_delim :: "char \<Rightarrow> bool" where
  "is_delim c = (c \<in> set ''.!?,'')"

text \<open>
  \<open>re.split(r'(?<=[.!?,])\s*', s)\<close>. The pattern matches at every position
  that directly follows one of the four delimiters and consumes the white space found
  there (possibly none), so the string is cut after each delimiter and the white space
  behind it is dropped. \<open>re.split\<close> also returns the piece after the last match,
  even when it is empty. \<open>cur\<close> is the piece being read.
\<close>

function re_split_from :: "string \<Rightarrow> string \<Rightarrow> string list" where
  "re_split_from cur [] = [cur]"
| "re_split_from cur (c # cs) =
     (if is_delim c then (cur @ [c]) # re_split_from [] (dropWhile isspace cs)
      else re_split_from (cur @ [c]) cs)"
  by pat_completeness auto
termination
  by (relation "measure (\<lambda>(cur, s). length s)")
     (auto simp: less_Suc_eq_le length_dropWhile_le)

definition re_split :: "string \<Rightarrow> string list" where
  "re_split s = re_split_from [] s"

definition split_sentences :: "string \<Rightarrow> string list" where
  "split_sentences caption =
     map strip (filter (\<lambda>sentence. sentence \<noteq> []) (re_split (strip caption)))"

text \<open>
  The units of a split laid back over the text: each unit followed by the gap that was
  dropped behind it.
\<close>

fun weave :: "string list \<Rightarrow> string list \<Rightarrow> string" where
  "weave (u # us) (g # gs) = u @ g @ weave us gs"
| "weave us gs = []"

section \<open>Text style and word wrap\<close>

type_synonym rgb = "int \<times> int \<times> int"

type_synonym bbox = "int \<times> int \<times> int \<times> int"

definition outline_color :: "rgb \<Rightarrow> rgb" where
  "outline_color text_color =
     (if text_color = (0, 0, 0) then (255, 255, 255) else (0, 0, 0))"

text \<open>
  \<open>int(x)\<close> of a Python float truncates toward zero. Floats are modelled as exact
  rationals.
\<close>

definition py_int :: "rat \<Rightarrow> int" where
  "py_int x = (if 0 \<le> x then \<lfloor>x\<rfloor> else \<lceil>x\<rceil>)"

text \<open>
  \<open>int(image.size[0] * 0.85)\<close>. The double nearest to 0.85 lies a little below
  it, but the product with a pixel count rounds back to the double nearest to the
  exact product, so the result is the floor of 85 percent of the width.
\<close>

definition max_width :: "int \<Rightarrow> int" where
  "max_width w = py_int (of_int w * (85 / 100))"

text \<open>
  The measured size of a piece of text, from the bounding box
  \<open>(left, top, right, bottom)\<close> that \<open>draw.textbbox((0, 0), s, font=font)\<close> returns.
\<close>

definition text_width :: "(string \<Rightarrow> bbox) \<Rightarrow> string \<Rightarrow> int" where
  "text_width bb s = (case bb s of (x0, y0, x1, y1) \<Rightarrow> x1 - x0)"

definition text_height :: "(string \<Rightarrow> bbox) \<Rightarrow> string \<Rightarrow> int" where
  "text_height bb s = (case bb s of (x0, y0, x1, y1) \<Rightarrow> y1 - y0)"

definition test_line :: "string \<Rightarrow> string \<Rightarrow> string" where
  "test_line current_line word =
     (if current_line \<noteq> [] then strip (current_line @ '' '' @ word) else word)"

text \<open>
  The loop over the words of \<open>add_centered_text_with_outline\<close>; the state is the
  list of finished lines and the current line.
\<close>

fun wrap_loop ::
  "(string \<Rightarrow> bbox) \<Rightarrow> int \<Rightarrow> string list \<Rightarrow> string list \<times> string \<Rightarrow> string list \<times> string"
where
  "wrap_loop bb mw [] (lines, current_line) = (lines, current_line)"
| "wrap_loop bb mw (word # words) (lines, current_line) =
     (if text_width bb (test_line current_line word) \<le> mw
      then wrap_loop bb mw words (lines, test_line current_line word)
      else wrap_loop bb mw words (lines @ [current_line], word))"

definition wrap_lines :: "(string \<Rightarrow> bbox) \<Rightarrow> int \<Rightarrow> string \<Rightarrow> string list" where
  "wrap_lines bb mw caption =
     (case wrap_loop bb mw (str_split caption) ([], []) of
        (lines, current_line) \<Rightarrow>
          if current_line \<noteq> [] then lines @ [current_line] else lines)"

section \<open>Errors, frames and the external collaborators\<close>

datatype error = ValueError string | ZeroDivisionError | OSError string

text \<open>A PIL image: its \<open>size\<close> (width, height) and its pixel content.\<close>

record 'p image =
  im_size :: "int \<times> int"
  pixels :: 'p

text \<open>
  An opened \<open>VideoFileClip\<close>: its duration in seconds and, for a time slice, the
  frames that \<open>subclip(start, end).iter_frames(fps=24)\<close> yields.
\<close>

record 'p video =
  duration :: rat
  frames_between :: "rat \<Rightarrow> rat \<Rightarrow> 'p image list"

record 'p clip =
  frames :: "'p image list"
  fps :: nat
  clip_duration :: rat

datatype os_kind = Posix | Nt

text \<open>
  What the program takes from PIL, moviepy and the operating system without computing
  it itself: decoding, resampling, rasterising text, font metrics, encoding.
  \<open>'p\<close> is the pixel content of an image, \<open>'f\<close> a loaded font.
\<close>

record ('p, 'f) collab =
  os_name :: os_kind
  image_open :: "string \<Rightarrow> error + 'p image"
  resample :: "int \<times> int \<Rightarrow> 'p image \<Rightarrow> 'p"
  solid :: "int \<times> int \<Rightarrow> rgb \<Rightarrow> 'p"
  paste_px :: "'p image \<Rightarrow> 'p image \<Rightarrow> int \<times> int \<Rightarrow> 'p"
  truetype :: "string \<Rightarrow> int \<Rightarrow> error + 'f"
  textbbox :: "'f \<Rightarrow> string \<Rightarrow> bbox"
  draw_text :: "'f \<Rightarrow> int \<times> int \<Rightarrow> string \<Rightarrow> rgb \<Rightarrow> 'p image \<Rightarrow> 'p"
  video_open :: "string \<Rightarrow> error + 'p video"
  write_videofile :: "string \<Rightarrow> 'p clip list \<Rightarrow> error + unit"

text \<open>
  \<open>image.resize(size, LANCZOS)\<close> returns a new image; PIL refuses a target size
  with a side below one pixel (\<open>ValueError: height and width must be > 0\<close>).
\<close>

definition pil_resize :: "('p, 'f) collab \<Rightarrow> 'p image \<Rightarrow> int \<times> int \<Rightarrow> error + 'p image" where
  "pil_resize env img sz =
     (if fst sz < 1 \<or> snd sz < 1 then Inl (ValueError ''height and width must be > 0'')
      else Inr \<lparr>im_size = sz, pixels = resample env sz img\<rparr>)"

text \<open>\<open>Image.new("RGB", size, color)\<close>; PIL refuses a negative side.\<close>

definition pil_new :: "('p, 'f) collab \<Rightarrow> int \<times> int \<Rightarrow> rgb \<Rightarrow> error + 'p image" where
  "pil_new env sz color =
     (if fst sz < 0 \<or> snd sz < 0 then Inl (ValueError ''Width and height must be >= 0'')
      else Inr \<lparr>im_size = sz, pixels = solid env sz color\<rparr>)"

section \<open>Frame transformer\<close>

text \<open>
  The scaled size that \<open>resize_to_aspect_ratio_with_zoom\<close> computes. Both
  divisions are float divisions and raise on a zero divisor. With exact rationals in
  place of doubles the scaled side is the exact floor; in doubles it can come out one
  pixel lower for some sizes (a source of 900 by 700 is scaled to 1080 by 839 by the
  code and to 1080 by 840 here), but it is zero for the same sizes, and for a source of
  aspect ratio 9:16 both give 1080 by 1920.
\<close>

definition scaled_size :: "int \<times> int \<Rightarrow> rat \<Rightarrow> int \<times> int \<Rightarrow> error + (int \<times> int)" where
  "scaled_size original target_aspect_ratio target_resolution =
     (case original of (original_width, original_height) \<Rightarrow>
        if original_height = 0 then Inl ZeroDivisionError
        else
          let original_aspect_ratio = of_int original_width / of_int original_height
          in if original_aspect_ratio < target_aspect_ratio
             then Inr (py_int (of_int (snd target_resolution) * original_aspect_ratio),
                       snd target_resolution)
             else if original_aspect_ratio = 0 then Inl ZeroDivisionError
             else Inr (fst target_resolution,
                       py_int (of_int (fst target_resolution) / original_aspect_ratio)))"

definition resize_to_aspect_ratio_with_zoom ::
  "('p, 'f) collab \<Rightarrow> 'p image \<Rightarrow> rat \<Rightarrow> int \<times> int \<Rightarrow> error + 'p image"
where
  "resize_to_aspect_ratio_with_zoom env img target_aspect_ratio target_resolution =
     (case scaled_size (im_size img) target_aspect_ratio target_resolution of
        Inl e \<Rightarrow> Inl e
      | Inr (new_width, new_height) \<Rightarrow>
          (case pil_resize env img (new_width, new_height) of
             Inl e \<Rightarrow> Inl e
           | Inr resized_image \<Rightarrow>
               (case pil_new env target_resolution (0, 0, 0) of
                  Inl e \<Rightarrow> Inl e
                | Inr new_image \<Rightarrow>
                    let x_offset = (fst target_resolution - new_width) div 2;
                        y_offset = (snd target_resolution - new_height) div 2
                    in Inr (new_image\<lparr>pixels :=
                              paste_px env new_image resized_image (x_offset, y_offset)\<rparr>))))"

definition stretch_vertically_to_resolution ::
  "('p, 'f) collab \<Rightarrow> 'p image \<Rightarrow> int \<times> int \<Rightarrow> error + 'p image"
where
  "stretch_vertically_to_resolution env img target_resolution =
     pil_resize env img target_resolution"

text \<open>The choice both pipelines make between the two transformers.\<close>

definition transform_frame :: "('p, 'f) collab \<Rightarrow> string \<Rightarrow> 'p image \<Rightarrow> error + 'p image" where
  "transform_frame env method img =
     (if method = ''zoom'' then resize_to_aspect_ratio_with_zoom env img (9 / 16) (1080, 1920)
      else stretch_vertically_to_resolution env img (1080, 1920))"

section \<open>Text layout engine\<close>

definition outline_offsets :: "(int \<times> int) list" where
  "outline_offsets = [(dx, dy). dx \<leftarrow> [- 1, 0, 1], dy \<leftarrow> [- 1, 0, 1], dx \<noteq> 0 \<or> dy \<noteq> 0]"

text \<open>\<open>draw.text(pos, s, font=font, fill=color)\<close> on the image \<open>draw\<close> was made for.\<close>

definition draw_on ::
  "('p, 'f) collab \<Rightarrow> 'f \<Rightarrow> int \<times> int \<Rightarrow> string \<Rightarrow> rgb \<Rightarrow> 'p image \<Rightarrow> 'p image"
where
  "draw_on env font pos s color img = img\<lparr>pixels := draw_text env font pos s color img\<rparr>"

fun draw_lines ::
  "('p, 'f) collab \<Rightarrow> 'f \<Rightarrow> rgb \<Rightarrow> string list \<Rightarrow> int \<Rightarrow> 'p image \<Rightarrow> 'p image"
where
  "draw_lines env font text_color [] y_position img = img"
| "draw_lines env font text_color (line # lines) y_position img =
     (case textbbox env font line of
        (x0, y0, x1, y1) \<Rightarrow>
          let x_position = (fst (im_size img) - (x1 - x0)) div 2;
              outlined =
                foldl (\<lambda>im (dx, dy).
                         draw_on env font (x_position + dx, y_position + dy) line
                           (outline_color text_color) im)
                      img outline_offsets;
              filled = draw_on env font (x_position, y_position) line text_color outlined
          in draw_lines env font text_color lines (y_position + (y1 - y0) + 10) filled)"

text \<open>
  What \<open>add_centered_text_with_outline\<close> does to the image it is given, once the
  font is loaded.
\<close>

definition burn_caption ::
  "('p, 'f) collab \<Rightarrow> 'f \<Rightarrow> string \<Rightarrow> rgb \<Rightarrow> 'p image \<Rightarrow> 'p image"
where
  "burn_caption env font caption text_color img =
     (let lines = wrap_lines (textbbox env font) (max_width (fst (im_size img))) caption;
          total_height =
            sum_list (map (text_height (textbbox env font)) lines)
              + (int (length lines) - 1) * 10;
          y_position = (snd (im_size img) - total_height) div 2
      in draw_lines env font text_color lines y_position img)"

text \<open>
  Images are mutable objects. The store holds them by reference: a reference is an
  index, references are only made by allocation, and drawing replaces the object at
  the reference it was given.
\<close>

type_synonym 'p heap = "'p image list"

definition img_new :: "'p image \<Rightarrow> 'p heap \<Rightarrow> nat \<times> 'p heap" where
  "img_new v h = (length h, h @ [v])"

definition img_copy :: "nat \<Rightarrow> 'p heap \<Rightarrow> nat \<times> 'p heap" where
  "img_copy a h = img_new (h ! a) h"

definition add_centered_text_with_outline ::
  "('p, 'f) collab \<Rightarrow> nat \<Rightarrow> string \<Rightarrow> string \<Rightarrow> int \<Rightarrow> rgb \<Rightarrow> 'p heap \<Rightarrow> error + (nat \<times> 'p heap)"
where
  "add_centered_text_with_outline env img caption font_path font_size text_color h =
     (case truetype env font_path font_size of
        Inl e \<Rightarrow> Inl e
      | Inr font \<Rightarrow> Inr (img, h[img := burn_caption env font caption text_color (h ! img)]))"

section \<open>Timeline composer\<close>

definition image_sequence_clip :: "'p image list \<Rightarrow> nat \<Rightarrow> 'p clip" where
  "image_sequence_clip sequence rate =
     \<lparr>frames = sequence, fps = rate, clip_duration = of_nat (length sequence) / of_nat rate\<rparr>"

definition set_duration :: "'p clip \<Rightarrow> rat \<Rightarrow> 'p clip" where
  "set_duration c d = c\<lparr>clip_duration := d\<rparr>"

text \<open>
  \<open>concatenate_videoclips(clips, method="compose")\<close> of moviepy 1.x takes the
  maximum over the clips' sizes first, which raises on an empty list.
\<close>

definition concatenate_videoclips :: "'p clip list \<Rightarrow> error + 'p clip list" where
  "concatenate_videoclips clips =
     (if clips = [] then Inl (ValueError ''max() arg is an empty sequence'') else Inr clips)"

text \<open>What a run leaves behind: the video written, or the message printed.\<close>

datatype 'p outcome = Written string "'p clip list" | Printed string

definition write_final :: "('p, 'f) collab \<Rightarrow> 'p clip list \<Rightarrow> string \<Rightarrow> error + 'p outcome" where
  "write_final env clips output_video_path =
     (case concatenate_videoclips clips of
        Inl e \<Rightarrow> Inl e
      | Inr final_clip \<Rightarrow>
          (case write_videofile env output_video_path final_clip of
             Inl e \<Rightarrow> Inl e
           | Inr u \<Rightarrow> Inr (Written output_video_path final_clip)))"

definition per_sentence :: "rat \<Rightarrow> string list \<Rightarrow> rat" where
  "per_sentence total_duration sentences =
     (if sentences \<noteq> [] then total_duration / of_nat (length sentences) else 0)"

text \<open>The loop over the sentences of the image path; \<open>image\<close> is the shared base frame.\<close>

fun image_clips ::
  "('p, 'f) collab \<Rightarrow> nat \<Rightarrow> string list \<Rightarrow> string \<Rightarrow> int \<Rightarrow> rgb \<Rightarrow> rat \<Rightarrow> 'p heap
   \<Rightarrow> error + ('p clip list \<times> 'p heap)"
where
  "image_clips env img [] font_path font_size text_color sentence_duration h = Inr ([], h)"
| "image_clips env img (sentence # rest) font_path font_size text_color sentence_duration h =
     (case img_copy img h of
        (copied, h1) \<Rightarrow>
          (case add_centered_text_with_outline env copied sentence font_path font_size
                  text_color h1 of
             Inl e \<Rightarrow> Inl e
           | Inr (frame_image, h2) \<Rightarrow>
               let text_clip =
                     set_duration (image_sequence_clip [h2 ! frame_image] 24) sentence_duration
               in (case image_clips env img rest font_path font_size text_color
                          sentence_duration h2 of
                     Inl e \<Rightarrow> Inl e
                   | Inr (clips, h3) \<Rightarrow> Inr (text_clip # clips, h3))))"

definition create_video_from_image_with_text ::
  "('p, 'f) collab \<Rightarrow> string \<Rightarrow> string \<Rightarrow> string \<Rightarrow> string \<Rightarrow> int \<Rightarrow> rgb \<Rightarrow> rat \<Rightarrow> string
   \<Rightarrow> error + 'p outcome"
where
  "create_video_from_image_with_text env image_path output_video_path caption font_path
     font_size text_color total_duration method =
     (case image_open env image_path of
        Inl e \<Rightarrow> Inl e
      | Inr opened \<Rightarrow>
          (case transform_frame env method opened of
             Inl e \<Rightarrow> Inl e
           | Inr img \<Rightarrow>
               let sentences = split_sentences caption;
                   sentence_duration = per_sentence total_duration sentences
               in (case image_clips env 0 sentences font_path font_size text_color
                          sentence_duration [img] of
                     Inl e \<Rightarrow> Inl e
                   | Inr (clips, h) \<Rightarrow> write_final env clips output_video_path)))"

text \<open>
  The video path. \<open>sentence_slices\<close> is the \<open>enumerate\<close> loop's arithmetic: the
  time slice \<open>[start_time, end_time)\<close> of each sentence.
\<close>

definition sentence_slices :: "rat \<Rightarrow> string list \<Rightarrow> (rat \<times> rat \<times> string) list" where
  "sentence_slices sentence_duration sentences =
     map (\<lambda>(i, sentence). (of_nat i * sentence_duration, (of_nat i + 1) * sentence_duration, sentence))
         (enumerate 0 sentences)"

definition video_plan :: "rat \<Rightarrow> 'p video \<Rightarrow> string \<Rightarrow> (rat \<times> rat \<times> string) list" where
  "video_plan total_duration video_clip caption =
     (let trimmed_clip_duration = min total_duration (duration video_clip);
          sentences = split_sentences caption;
          sentence_duration = per_sentence trimmed_clip_duration sentences
      in sentence_slices sentence_duration sentences)"

definition process_frame ::
  "('p, 'f) collab \<Rightarrow> string \<Rightarrow> string \<Rightarrow> string \<Rightarrow> int \<Rightarrow> rgb \<Rightarrow> 'p image \<Rightarrow> 'p heap
   \<Rightarrow> error + ('p image \<times> 'p heap)"
where
  "process_frame env method sentence font_path font_size text_color frame h =
     (case transform_frame env method frame of
        Inl e \<Rightarrow> Inl e
      | Inr transformed \<Rightarrow>
          (case img_new transformed h of
             (frame_image, h0) \<Rightarrow>
               (case img_copy frame_image h0 of
                  (copied, h1) \<Rightarrow>
                    (case add_centered_text_with_outline env copied sentence font_path
                            font_size text_color h1 of
                       Inl e \<Rightarrow> Inl e
                     | Inr (frame_with_text, h2) \<Rightarrow> Inr (h2 ! frame_with_text, h2)))))"

fun frame_loop ::
  "('p, 'f) collab \<Rightarrow> string \<Rightarrow> string \<Rightarrow> string \<Rightarrow> int \<Rightarrow> rgb \<Rightarrow> 'p image list \<Rightarrow> 'p heap
   \<Rightarrow> error + ('p image list \<times> 'p heap)"
where
  "frame_loop env method sentence font_path font_size text_color [] h = Inr ([], h)"
| "frame_loop env method sentence font_path font_size text_color (frame # rest) h =
     (case process_frame env method sentence font_path font_size text_color frame h of
        Inl e \<Rightarrow> Inl e
      | Inr (rendered, h1) \<Rightarrow>
          (case frame_loop env method sentence font_path font_size text_color rest h1 of
             Inl e \<Rightarrow> Inl e
           | Inr (frame_clips, h2) \<Rightarrow> Inr (rendered # frame_clips, h2)))"

fun video_clips ::
  "('p, 'f) collab \<Rightarrow> 'p video \<Rightarrow> string \<Rightarrow> string \<Rightarrow> int \<Rightarrow> rgb \<Rightarrow> (rat \<times> rat \<times> string) list
   \<Rightarrow> 'p heap \<Rightarrow> error + ('p clip list \<times> 'p heap)"
where
  "video_clips env video_clip method font_path font_size text_color [] h = Inr ([], h)"
| "video_clips env video_clip method font_path font_size text_color
     ((start_time, end_time, sentence) # rest) h =
     (case frame_loop env method sentence font_path font_size text_color
             (frames_between video_clip start_time end_time) h of
        Inl e \<Rightarrow> Inl e
      | Inr (frame_clips, h1) \<Rightarrow>
          (case video_clips env video_clip method font_path font_size text_color rest h1 of
             Inl e \<Rightarrow> Inl e
           | Inr (clips, h2) \<Rightarrow>
               Inr ((if frame_clips \<noteq> [] then [image_sequence_clip frame_clips 24] else [])
                      @ clips, h2)))"

definition create_video_from_video_with_text ::
  "('p, 'f) collab \<Rightarrow> string \<Rightarrow> string \<Rightarrow> string \<Rightarrow> string \<Rightarrow> int \<Rightarrow> rgb \<Rightarrow> rat \<Rightarrow> string
   \<Rightarrow> error + 'p outcome"
where
  "create_video_from_video_with_text env video_path output_video_path caption font_path
     font_size text_color total_duration method =
     (case video_open env video_path of
        Inl e \<Rightarrow> Inl e
      | Inr video_clip \<Rightarrow>
          (case video_clips env video_clip method font_path font_size text_color
                  (video_plan total_duration video_clip caption) [] of
             Inl e \<Rightarrow> Inl e
           | Inr (clips, h) \<Rightarrow>
               if clips \<noteq> [] then write_final env clips output_video_path
               else Inr (Printed ''No clips were created.'')))"

section \<open>Media source dispatcher\<close>

text \<open>
  \<open>os.path.splitext\<close>: the extension starts at the last dot of the path, provided
  that dot comes after the last separator and some character of the file name before
  it is not a dot; otherwise the extension is empty.
\<close>

definition seps :: "os_kind \<Rightarrow> char list" where
  "seps os = (case os of Posix \<Rightarrow> [CHR ''/''] | Nt \<Rightarrow> [CHR 0x5C, CHR ''/''])"

definition rfind :: "(char \<Rightarrow> bool) \<Rightarrow> string \<Rightarrow> int" where
  "rfind P p =
     (case filter (\<lambda>i. P (p ! i)) (rev [0..<length p]) of [] \<Rightarrow> - 1 | i # _ \<Rightarrow> int i)"

definition splitext :: "os_kind \<Rightarrow> string \<Rightarrow> string \<times> string" where
  "splitext os p =
     (let sepIndex = rfind (\<lambda>c. c \<in> set (seps os)) p;
          dotIndex = rfind (\<lambda>c. c = CHR ''.'') p
      in if dotIndex > sepIndex
            \<and> list_ex (\<lambda>c. c \<noteq> CHR ''.'')
                 (take (nat (dotIndex - (sepIndex + 1))) (drop (nat (sepIndex + 1)) p))
         then (take (nat dotIndex) p, drop (nat dotIndex) p)
         else (p, []))"

definition image_extensions :: "string list" where
  "image_extensions = [''.jpg'', ''.jpeg'', ''.png'', ''.bmp'', ''.gif'']"

definition video_extensions :: "string list" where
  "video_extensions = [''.mp4'', ''.mov'', ''.avi'', ''.mkv'', ''.wmv'']"

definition lower_ext :: "os_kind \<Rightarrow> string \<Rightarrow> string" where
  "lower_ext os p = lower (snd (splitext os p))"

definition create_video_from_media_with_text ::
  "('p, 'f) collab \<Rightarrow> string \<Rightarrow> string \<Rightarrow> string \<Rightarrow> string \<Rightarrow> int \<Rightarrow> rgb \<Rightarrow> rat \<Rightarrow> string
   \<Rightarrow> error + 'p outcome"
where
  "create_video_from_media_with_text env input_path output_video_path caption font_path
     font_size text_color total_duration method =
     (if lower_ext (os_name env) input_path \<in> set image_extensions
      then create_video_from_image_with_text env input_path output_video_path caption
             font_path font_size text_color total_duration method
      else if lower_ext (os_name env) input_path \<in> set video_extensions
      then create_video_from_video_with_text env input_path output_video_path caption
             font_path font_size text_color total_duration method
      else Inl (ValueError ''Unsupported file format''))"

section \<open>A reference collaborator\<close>

text \<open>
  A small stand-in for the libraries, for running the model on concrete inputs: the
  pixel content of an image is the list of texts drawn on it, a font is its size, a
  glyph is as wide and as high as the font size, every image file opens as a
  1080 by 1920 frame and every video file as a three-second clip of 1920 by 1080
  frames.
\<close>

type_synonym ink = "((int \<times> int) \<times> string \<times> rgb) list"

definition sample_video :: "ink video" where
  "sample_video =
     \<lparr>duration = 3,
      frames_between = (\<lambda>start_time end_time.
         replicate (nat \<lfloor>(end_time - start_time) * 24\<rfloor>) \<lparr>im_size = (1920, 1080), pixels = []\<rparr>)\<rparr>"

definition sample_collab :: "(ink, int) collab" where
  "sample_collab =
     \<lparr>os_name = Posix,
      image_open = (\<lambda>path. Inr \<lparr>im_size = (1080, 1920), pixels = []\<rparr>),
      resample = (\<lambda>sz img. pixels img),
      solid = (\<lambda>sz color. []),
      paste_px = (\<lambda>base pasted offset. pixels base @ pixels pasted),
      truetype = (\<lambda>path font_size.
         if path = [] then Inl (OSError ''cannot open resource'') else Inr font_size),
      textbbox = (\<lambda>font s. (0, 0, font * int (length s), font)),
      draw_text = (\<lambda>font pos s color img. pixels img @ [(pos, s, color)]),
      video_open = (\<lambda>path. Inr sample_video),
      write_videofile = (\<lambda>path final_clip. Inr ())\<rparr>"

section \<open>Properties of the string operations and the sentence splitter\<close>

lemma delim_not_space: "is_delim c \<Longrightarrow> \<not> isspace c"
  by (auto simp: is_delim_def isspace_def whitespace_chars_def)

lemma strip_id: "s \<noteq> [] \<Longrightarrow> \<not> isspace (hd s) \<Longrightarrow> \<not> isspace (last s) \<Longrightarrow> strip s = s"
proof -
  assume a: "s \<noteq> []" "\<not> isspace (hd s)" "\<not> isspace (last s)"
  have 1: "dropWhile isspace s = s" using a(2) by (simp add: dropWhile_eq_self_iff)
  have "hd (rev s) = last s" by (simp add: hd_rev)
  then have 2: "dropWhile isspace (rev s) = rev s" using a(3) by (simp add: dropWhile_eq_self_iff)
  show ?thesis by (simp add: strip_def 1 2)
qed

lemma last_dropWhile_ne: "dropWhile P xs \<noteq> [] \<Longrightarrow> last (dropWhile P xs) = last xs"
proof -
  assume a: "dropWhile P xs \<noteq> []"
  have "last xs = last (takeWhile P xs @ dropWhile P xs)" by simp
  also have "\<dots> = last (dropWhile P xs)" using a by (simp only: last_append if_False)
  finally show ?thesis by simp
qed

lemma strip_Nil: "strip [] = []"
  by (simp add: strip_def)

lemma strip_ends: "strip s \<noteq> [] \<Longrightarrow> \<not> isspace (hd (strip s)) \<and> \<not> isspace (last (strip s))"
proof -
  assume a: "strip s \<noteq> []"
  let ?d = "dropWhile isspace s"
  let ?r = "dropWhile isspace (rev ?d)"
  have r: "?r \<noteq> []" using a by (simp add: strip_def)
  then have 1: "\<not> isspace (hd ?r)" by (simp add: hd_dropWhile)
  have d: "?d \<noteq> []"
  proof
    assume "?d = []"
    then have "?r = []" by (simp only: rev.simps dropWhile.simps)
    with r show False by blast
  qed
  then have 2: "\<not> isspace (hd ?d)" by (simp add: hd_dropWhile)
  have "last (strip s) = hd ?r" using r by (simp add: strip_def last_rev)
  moreover have "hd (strip s) = hd ?d"
  proof -
    have "rev ?d = takeWhile isspace (rev ?d) @ ?r" by simp
    then have "?d = rev ?r @ rev (takeWhile isspace (rev ?d))"
      by (metis rev_append rev_rev_ident)
    then have "hd ?d = hd (rev ?r)" using r by (metis hd_append2 rev_is_Nil_conv)
    then show ?thesis by (simp add: strip_def)
  qed
  ultimately show ?thesis using 1 2 by simp
qed

lemma re_split_from_ne: "re_split_from cur s \<noteq> []"
  by (induction cur s rule: re_split_from.induct) auto

lemma re_split_from_butlast:
  "u \<in> set (butlast (re_split_from cur s)) \<Longrightarrow> u \<noteq> [] \<and> is_delim (last u)"
  by (induction cur s rule: re_split_from.induct) (auto simp: re_split_from_ne split: if_splits)

lemma re_split_from_inner:
  "\<forall>c\<in>set cur. \<not> is_delim c \<Longrightarrow> u \<in> set (re_split_from cur s) \<Longrightarrow> c \<in> set (butlast u) \<Longrightarrow> \<not> is_delim c"
  by (induction cur s arbitrary: u rule: re_split_from.induct)
     (auto simp: butlast_append split: if_splits dest: in_set_butlastD)

lemma re_split_from_hd:
  "(cur \<noteq> [] \<longrightarrow> \<not> isspace (hd cur)) \<Longrightarrow> (cur = [] \<longrightarrow> s = [] \<or> \<not> isspace (hd s)) \<Longrightarrow>
   u \<in> set (re_split_from cur s) \<Longrightarrow> u \<noteq> [] \<Longrightarrow> \<not> isspace (hd u)"
proof (induction cur s arbitrary: u rule: re_split_from.induct)
  case (1 cur)
  then show ?case by auto
next
  case (2 cur c cs)
  show ?case
  proof (cases "is_delim c")
    case True
    have hd1: "\<not> isspace (hd (cur @ [c]))"
      using 2(3,4) True by (cases cur) (auto dest: delim_not_space)
    have "dropWhile isspace cs = [] \<or> \<not> isspace (hd (dropWhile isspace cs))"
      using hd_dropWhile[of isspace cs] by blast
    with 2(1)[OF True, of u] 2(5,6) True hd1 show ?thesis by auto
  next
    case False
    have hd1: "\<not> isspace (hd (cur @ [c]))"
      using 2(3,4) by (cases cur) auto
    with 2(2)[OF False, of u] 2(5,6) False show ?thesis by auto
  qed
qed

lemma re_split_from_last:
  "last (re_split_from cur s) \<noteq> [] \<Longrightarrow> last (last (re_split_from cur s)) = last (cur @ s)"
proof (induction cur s rule: re_split_from.induct)
  case (1 cur)
  then show ?case by simp
next
  case (2 cur c cs)
  show ?case
  proof (cases "is_delim c")
    case True
    let ?d = "dropWhile isspace cs"
    from 2(3) True have ne: "last (re_split_from [] ?d) \<noteq> []"
      by (simp add: re_split_from_ne)
    have d: "?d \<noteq> []"
    proof
      assume "?d = []"
      with ne show False by simp
    qed
    then have cs: "cs \<noteq> []" by auto
    from 2(1)[OF True ne] have "last (last (re_split_from [] ?d)) = last cs"
      using d by (simp add: last_dropWhile_ne)
    then show ?thesis using True cs by (simp add: re_split_from_ne)
  next
    case False
    with 2(2)[OF False] 2(3) show ?thesis by simp
  qed
qed


lemma re_split_from_weave:
  "\<exists>gs. length gs = length (re_split_from cur s) \<and> (\<forall>g\<in>set gs. \<forall>c\<in>set g. isspace c) \<and>
        last gs = [] \<and> weave (re_split_from cur s) gs = cur @ s"
proof (induction cur s rule: re_split_from.induct)
  case (1 cur)
  have "length [[]::string] = length (re_split_from cur []) \<and>
        (\<forall>g\<in>set [[]::string]. \<forall>c\<in>set g. isspace c) \<and> last [[]::string] = [] \<and>
        weave (re_split_from cur []) [[]] = cur @ []"
    by simp
  then show ?case by blast
next
  case (2 cur c cs)
  show ?case
  proof (cases "is_delim c")
    case True
    let ?d = "dropWhile isspace cs"
    from 2(1)[OF True] obtain gs where gs:
      "length gs = length (re_split_from [] ?d)" "\<forall>g\<in>set gs. \<forall>c\<in>set g. isspace c"
      "last gs = []" "weave (re_split_from [] ?d) gs = ?d"
      by auto
    have ne: "gs \<noteq> []" using gs(1) re_split_from_ne[of "[]" ?d] by auto
    let ?gs = "takeWhile isspace cs # gs"
    have "length ?gs = length (re_split_from cur (c # cs))" using True gs(1) by simp
    moreover have "\<forall>g\<in>set ?gs. \<forall>c\<in>set g. isspace c"
      using gs(2) by (auto dest: set_takeWhileD)
    moreover have "last ?gs = []" using ne gs(3) by simp
    moreover have "weave (re_split_from cur (c # cs)) ?gs = cur @ c # cs"
      using True gs(4) by simp
    ultimately show ?thesis by blast
  next
    case False
    with 2(2)[OF False] show ?thesis by simp
  qed
qed

lemma weave_butlast:
  "length us = length gs \<Longrightarrow> us \<noteq> [] \<Longrightarrow> last us = [] \<Longrightarrow> last gs = [] \<Longrightarrow>
   weave (butlast us) (butlast gs) = weave us gs"
  by (induction us gs rule: list_induct2) (auto split: if_splits)

lemma filter_nonempty_pieces:
  assumes "\<forall>u\<in>set (butlast us). u \<noteq> []" "us \<noteq> []"
  shows "filter (\<lambda>u. u \<noteq> []) us = (if last us = [] then butlast us else us)"
proof -
  have "filter (\<lambda>u. u \<noteq> []) (butlast us @ [last us]) =
        filter (\<lambda>u. u \<noteq> []) (butlast us) @ filter (\<lambda>u. u \<noteq> []) [last us]"
    by (simp only: filter_append)
  moreover have "filter (\<lambda>u. u \<noteq> []) (butlast us) = butlast us"
    using assms(1) by (simp add: filter_id_conv)
  moreover have "butlast us @ [last us] = us" using assms(2) by simp
  ultimately have "filter (\<lambda>u. u \<noteq> []) us = butlast us @ filter (\<lambda>u. u \<noteq> []) [last us]"
    by simp
  then show ?thesis using assms(2) by (cases "last us = []") simp_all
qed

lemma in_set_butlast_or_last: "x \<in> set xs \<Longrightarrow> x \<in> set (butlast xs) \<or> x = last xs"
  by (induction xs) (auto split: if_splits)

lemma split_sentences_pieces:
  "split_sentences caption = filter (\<lambda>u. u \<noteq> []) (re_split_from [] (strip caption))
   \<and> (\<forall>u\<in>set (split_sentences caption). u \<noteq> [] \<and> \<not> isspace (hd u) \<and> \<not> isspace (last u))"
proof -
  define t where "t = strip caption"
  define us where "us = re_split_from [] t"
  define fs where "fs = filter (\<lambda>u. u \<noteq> []) us"
  have t0: "t = [] \<or> \<not> isspace (hd t)" unfolding t_def using strip_ends[of caption] by blast
  have t1: "t = [] \<or> \<not> isspace (last t)" unfolding t_def using strip_ends[of caption] by blast
  have ends: "\<not> isspace (hd u) \<and> \<not> isspace (last u)" if u: "u \<in> set fs" for u
  proof -
    from u have uin: "u \<in> set us" and une: "u \<noteq> []" unfolding fs_def by simp_all
    have uin': "u \<in> set (re_split_from [] t)" using uin unfolding us_def .
    have h: "\<not> isspace (hd u)"
    proof (rule re_split_from_hd[of "[]" t u])
      show "[] \<noteq> [] \<longrightarrow> \<not> isspace (hd [])" by simp
      show "[] = [] \<longrightarrow> t = [] \<or> \<not> isspace (hd t)" using t0 by simp
      show "u \<in> set (re_split_from [] t)" by (rule uin')
      show "u \<noteq> []" by (rule une)
    qed
    from in_set_butlast_or_last[OF uin] have "u \<in> set (butlast us) \<or> u = last us" .
    then have l: "\<not> isspace (last u)"
    proof
      assume "u \<in> set (butlast us)"
      then have "is_delim (last u)" unfolding us_def using re_split_from_butlast by blast
      then show ?thesis by (rule delim_not_space)
    next
      assume e: "u = last us"
      then have "last (re_split_from [] t) \<noteq> []" using une unfolding us_def by simp
      then have "last (last (re_split_from [] t)) = last ([] @ t)" by (rule re_split_from_last)
      then have lu: "last u = last t" using e unfolding us_def by simp
      have "t \<noteq> []"
      proof
        assume "t = []"
        then have "us = [[]]" unfolding us_def by simp
        with e une show False by simp
      qed
      then show ?thesis using t1 lu by simp
    qed
    from h l show ?thesis ..
  qed
  have "map strip fs = fs"
  proof (rule map_idI)
    fix u assume u: "u \<in> set fs"
    then have "u \<noteq> []" unfolding fs_def by simp
    then show "strip u = u" using ends[OF u] by (simp add: strip_id)
  qed
  then have eq: "split_sentences caption = fs"
    unfolding fs_def us_def t_def by (simp add: split_sentences_def re_split_def)
  have "\<forall>u\<in>set fs. u \<noteq> [] \<and> \<not> isspace (hd u) \<and> \<not> isspace (last u)"
  proof
    fix u assume u: "u \<in> set fs"
    then have "u \<noteq> []" unfolding fs_def by simp
    with ends[OF u] show "u \<noteq> [] \<and> \<not> isspace (hd u) \<and> \<not> isspace (last u)" by simp
  qed
  then show ?thesis unfolding eq unfolding fs_def us_def t_def by simp
qed

lemma split_sentences_cases:
  "split_sentences caption =
     (if last (re_split_from [] (strip caption)) = [] then butlast (re_split_from [] (strip caption))
      else re_split_from [] (strip caption))"
proof -
  have bl: "\<forall>u\<in>set (butlast (re_split_from [] (strip caption))). u \<noteq> []"
    using re_split_from_butlast by blast
  have "split_sentences caption = filter (\<lambda>u. u \<noteq> []) (re_split_from [] (strip caption))"
    using split_sentences_pieces by blast
  also have "\<dots> = (if last (re_split_from [] (strip caption)) = []
                    then butlast (re_split_from [] (strip caption))
                    else re_split_from [] (strip caption))"
    by (rule filter_nonempty_pieces[OF bl re_split_from_ne])
  finally show ?thesis .
qed

lemma split_sentences_subset: "u \<in> set (split_sentences caption) \<Longrightarrow> u \<in> set (re_split_from [] (strip caption))"
proof -
  assume u: "u \<in> set (split_sentences caption)"
  have eq: "split_sentences caption = filter (\<lambda>u. u \<noteq> []) (re_split_from [] (strip caption))"
    using split_sentences_pieces by (rule conjunct1)
  from u have "u \<in> set (filter (\<lambda>u. u \<noteq> []) (re_split_from [] (strip caption)))"
    by (simp only: eq)
  then show ?thesis by (simp only: set_filter mem_Collect_eq)
qed

lemma split_sentences_butlast:
  "u \<in> set (butlast (split_sentences caption)) \<Longrightarrow> u \<in> set (butlast (re_split_from [] (strip caption)))"
  unfolding split_sentences_cases by (auto split: if_splits dest: in_set_butlastD)

lemma split_sentences_weave:
  "\<exists>gs. length gs = length (split_sentences caption) \<and> (\<forall>g\<in>set gs. \<forall>c\<in>set g. isspace c)
        \<and> weave (split_sentences caption) gs = strip caption"
proof -
  define us where "us = re_split_from [] (strip caption)"
  from re_split_from_weave[of "[]" "strip caption"] obtain gs where gs:
    "length gs = length us" "\<forall>g\<in>set gs. \<forall>c\<in>set g. isspace c" "last gs = []"
    "weave us gs = strip caption" unfolding us_def by auto
  have ne: "us \<noteq> []" unfolding us_def by (rule re_split_from_ne)
  have cases: "split_sentences caption = (if last us = [] then butlast us else us)"
    unfolding us_def by (rule split_sentences_cases)
  show ?thesis
  proof (cases "last us = []")
    case True
    then have f: "split_sentences caption = butlast us" using cases by simp
    have w: "weave (butlast us) (butlast gs) = weave us gs"
      using gs(1)[symmetric] ne True gs(3) by (intro weave_butlast) simp_all
    have a: "length (butlast gs) = length (split_sentences caption)" using gs(1) f by simp
    have b: "\<forall>g\<in>set (butlast gs). \<forall>c\<in>set g. isspace c" using gs(2) by (auto dest: in_set_butlastD)
    have c: "weave (split_sentences caption) (butlast gs) = strip caption" using w gs(4) f by simp
    from a b c show ?thesis by blast
  next
    case False
    then have "split_sentences caption = us" using cases by simp
    with gs show ?thesis by auto
  qed
qed

text \<open>
  Claim C2. For every input, \<open>split_sentences\<close> returns, in order, units that are
  non-empty, not made of white space only and free of surrounding white space; a unit
  holds a delimiter (one of \<open>. ! ? ,\<close>) at most as its last character, and every unit
  but the last ends with one, so the text is cut immediately after each delimiter and
  the delimiter stays with the unit before it; the units, each followed by the run of
  white space dropped behind it, spell the stripped input. The empty string gives no
  unit, and \<open>A. B! C, D\<close> gives \<open>A.\<close>, \<open>B!\<close>, \<open>C,\<close>, \<open>D\<close>.
\<close>

theorem split_sentences_units:
  "(\<forall>u\<in>set (split_sentences caption).
       u \<noteq> [] \<and> (\<exists>c\<in>set u. \<not> isspace c) \<and> \<not> isspace (hd u) \<and> \<not> isspace (last u)
       \<and> (\<forall>c\<in>set (butlast u). \<not> is_delim c))
   \<and> (\<forall>u\<in>set (butlast (split_sentences caption)). is_delim (last u))
   \<and> (\<exists>gs. length gs = length (split_sentences caption)
         \<and> (\<forall>g\<in>set gs. \<forall>c\<in>set g. isspace c)
         \<and> weave (split_sentences caption) gs = strip caption)
   \<and> split_sentences [] = []
   \<and> split_sentences ''A. B! C, D'' = [''A.'', ''B!'', ''C,'', ''D'']"
proof -
  have 1: "\<forall>u\<in>set (split_sentences caption).
       u \<noteq> [] \<and> (\<exists>c\<in>set u. \<not> isspace c) \<and> \<not> isspace (hd u) \<and> \<not> isspace (last u)
       \<and> (\<forall>c\<in>set (butlast u). \<not> is_delim c)"
  proof
    fix u assume u: "u \<in> set (split_sentences caption)"
    have "\<forall>u\<in>set (split_sentences caption). u \<noteq> [] \<and> \<not> isspace (hd u) \<and> \<not> isspace (last u)"
      using split_sentences_pieces by (rule conjunct2)
    with u have e: "u \<noteq> []" "\<not> isspace (hd u)" "\<not> isspace (last u)" by blast+
    from e(1,2) have x: "\<exists>c\<in>set u. \<not> isspace c" by (cases u) auto
    have "\<forall>c\<in>set (butlast u). \<not> is_delim c"
      using re_split_from_inner[of "[]" u "strip caption"] split_sentences_subset[OF u] by simp
    with e x show "u \<noteq> [] \<and> (\<exists>c\<in>set u. \<not> isspace c) \<and> \<not> isspace (hd u)
             \<and> \<not> isspace (last u) \<and> (\<forall>c\<in>set (butlast u). \<not> is_delim c)" by simp
  qed
  have 2: "\<forall>u\<in>set (butlast (split_sentences caption)). is_delim (last u)"
    using split_sentences_butlast re_split_from_butlast by blast
  have 4: "split_sentences [] = []"
    by (simp add: split_sentences_def re_split_def strip_def)
  have 5: "split_sentences ''A. B! C, D'' = [''A.'', ''B!'', ''C,'', ''D'']"
    by (simp add: split_sentences_def re_split_def strip_def isspace_def is_delim_def
        whitespace_chars_def)
  show ?thesis by (intro conjI 1 2 split_sentences_weave 4 5)
qed

theorem split_sentences_units_witness:
  "split_sentences '' Hi there.  Bye,, now '' = [''Hi there.'', ''Bye,'', '','', ''now'']
   \<and> strip '' Hi there.  Bye,, now '' = ''Hi there.  Bye,, now''
   \<and> weave (split_sentences '' Hi there.  Bye,, now '') [''  '', [], '' '', []] = strip '' Hi there.  Bye,, now ''"
  using split_sentences_units[of "'' Hi there.  Bye,, now ''"]
  by (simp add: split_sentences_def re_split_def strip_def isspace_def is_delim_def
        whitespace_chars_def)

section \<open>Properties of the word wrap\<close>











lemma wrap_loop_prefix: "\<exists>more. fst (wrap_loop bb mw ws (ls, cur)) = ls @ more"
proof (induction ws arbitrary: ls cur)
  case Nil
  then show ?case by simp
next
  case (Cons w ws)
  show ?case
  proof (cases "text_width bb (test_line cur w) \<le> mw")
    case True
    then show ?thesis using Cons.IH[of ls "test_line cur w"] by simp
  next
    case False
    from Cons.IH[of "ls @ [cur]" w] obtain more where
      "fst (wrap_loop bb mw ws (ls @ [cur], w)) = (ls @ [cur]) @ more" by blast
    then have "fst (wrap_loop bb mw (w # ws) (ls, cur)) = ls @ (cur # more)"
      using False by simp
    then show ?thesis by blast
  qed
qed





text \<open>
  Claim C10. When the first word of the text alone measures wider than the budget, the
  first line the wrap emits is the empty string: the still empty current line is
  appended before the word starts its own line.
\<close>

theorem wrap_lines_leading_empty_line:
  assumes "str_split caption = word # rest" and "mw < text_width bb word"
  shows "\<exists>more. wrap_lines bb mw caption = [] # more"
proof -
  have step: "wrap_loop bb mw (word # rest) ([], []) = wrap_loop bb mw rest ([[]], word)"
    using assms(2) by (simp add: test_line_def)
  obtain ls cur where run: "wrap_loop bb mw rest ([[]], word) = (ls, cur)"
    by (cases "wrap_loop bb mw rest ([[]], word)") auto
  from wrap_loop_prefix[of bb mw rest "[[]]" word] run obtain more where ls: "ls = [[]] @ more"
    by auto
  have "wrap_lines bb mw caption = (if cur \<noteq> [] then ls @ [cur] else ls)"
    unfolding wrap_lines_def assms(1) step run by simp
  then have "wrap_lines bb mw caption = [] # (if cur \<noteq> [] then more @ [cur] else more)"
    using ls by simp
  then show ?thesis by blast
qed

theorem wrap_lines_leading_empty_line_witness:
  "str_split ''Supercalifragilisticexpialidocious is long''
     = ''Supercalifragilisticexpialidocious'' # [''is'', ''long'']
   \<and> max_width 1080 < text_width (textbbox sample_collab 50) ''Supercalifragilisticexpialidocious''
   \<and> hd (wrap_lines (textbbox sample_collab 50) (max_width 1080)
        ''Supercalifragilisticexpialidocious is long'') = []"
proof -
  have h1: "str_split ''Supercalifragilisticexpialidocious is long''
     = ''Supercalifragilisticexpialidocious'' # [''is'', ''long'']"
    by code_simp
  have h2: "max_width 1080 < text_width (textbbox sample_collab 50) ''Supercalifragilisticexpialidocious''"
    by code_simp
  from wrap_lines_leading_empty_line[OF h1 h2] obtain more where
    "wrap_lines (textbbox sample_collab 50) (max_width 1080)
        ''Supercalifragilisticexpialidocious is long'' = [] # more" by blast
  then have "hd (wrap_lines (textbbox sample_collab 50) (max_width 1080)
        ''Supercalifragilisticexpialidocious is long'') = []" by simp
  with h1 h2 show ?thesis by blast
qed

section \<open>Properties of the text style and the frame transformer\<close>

text \<open>
  Claim C7. The outline colour derived from the fill colour is white when the fill is
  exactly black and black for every other fill, so it never equals the fill.
\<close>

theorem outline_color_contrast:
  "outline_color (0, 0, 0) = (255, 255, 255)
   \<and> (c \<noteq> (0, 0, 0) \<longrightarrow> outline_color c = (0, 0, 0))
   \<and> outline_color c \<noteq> c"
  by (simp add: outline_color_def)

theorem outline_color_contrast_witness:
  "outline_color (0, 0, 0) = (255, 255, 255) \<and> outline_color (255, 255, 0) = (0, 0, 0)
   \<and> outline_color (255, 255, 0) \<noteq> (255, 255, 0)"
  using outline_color_contrast[of "(255, 255, 0)"] by simp

lemma aspect_less_iff:
  "0 < h \<Longrightarrow> ((of_int w / of_int h :: rat) < 9 / 16) = (16 * w < 9 * h)"
proof -
  assume h: "0 < h"
  have "((of_int w / of_int h :: rat) < 9 / 16) = ((of_int (16 * w) :: rat) < of_int (9 * h))"
    using h by (simp add: field_simps)
  then show ?thesis by (simp only: of_int_less_iff)
qed

lemma py_int_quotient: "0 \<le> a \<Longrightarrow> 0 < b \<Longrightarrow> py_int (of_int a / of_int b) = a div b"
  by (simp add: py_int_def floor_divide_of_int_eq)

text \<open>
  The closed form of \<open>scaled_size\<close> for the default target, in the exact arithmetic of
  this development; the code's doubles give the same side or one pixel less.
\<close>

lemma scaled_size_default:
  assumes "0 < w" "0 < h"
  shows "scaled_size (w, h) (9 / 16) (1080, 1920) =
           Inr (if 16 * w < 9 * h then ((1920 * w) div h, 1920) else (1080, (1080 * h) div w))"
proof (cases "16 * w < 9 * h")
  case True
  have "py_int (of_int 1920 * (of_int w / of_int h)) = py_int (of_int (1920 * w) / of_int h)"
    by simp
  also have "\<dots> = (1920 * w) div h" using assms by (intro py_int_quotient) simp_all
  finally have "py_int (1920 * (of_int w / of_int h)) = (1920 * w) div h" by simp
  then show ?thesis using True assms aspect_less_iff[of h w] by (simp add: scaled_size_def Let_def)
next
  case False
  have "py_int (of_int 1080 / (of_int w / of_int h)) = py_int (of_int (1080 * h) / of_int w)"
    by simp
  also have "\<dots> = (1080 * h) div w" using assms by (intro py_int_quotient) simp_all
  finally have "py_int (1080 / (of_int w / of_int h)) = (1080 * h) div w" by simp
  then show ?thesis using False assms aspect_less_iff[of h w] by (simp add: scaled_size_def Let_def)
qed

text \<open>
  Claim C6. For a source frame whose aspect ratio is exactly 9:16, letterbox-fit scales
  to exactly the target 1080 by 1920 and pastes at offset (0, 0): there is no padding.
\<close>

theorem letterbox_same_aspect_no_padding:
  assumes "im_size img = (w, h)" and "0 < h" and "16 * w = 9 * h"
  shows "scaled_size (im_size img) (9 / 16) (1080, 1920) = Inr (1080, 1920)
         \<and> resize_to_aspect_ratio_with_zoom env img (9 / 16) (1080, 1920) =
             Inr \<lparr>im_size = (1080, 1920),
                  pixels = paste_px env
                    \<lparr>im_size = (1080, 1920), pixels = solid env (1080, 1920) (0, 0, 0)\<rparr>
                    \<lparr>im_size = (1080, 1920), pixels = resample env (1080, 1920) img\<rparr>
                    (0, 0)\<rparr>"
proof -
  have w: "0 < w" using assms(2,3) by linarith
  have "(1080 * h) div w = 1920"
  proof -
    have e: "1080 * h = 1920 * w" using assms(3) by linarith
    have "(1920 * w) div w = 1920" using w by simp
    then show ?thesis by (simp only: e)
  qed
  then have s: "scaled_size (im_size img) (9 / 16) (1080, 1920) = Inr (1080, 1920)"
    using scaled_size_default[OF w assms(2)] assms(1,3) by simp
  show ?thesis
    by (simp add: s resize_to_aspect_ratio_with_zoom_def pil_resize_def pil_new_def)
qed

theorem letterbox_same_aspect_no_padding_witness:
  "im_size \<lparr>im_size = (2160, 3840), pixels = []\<rparr> = (2160, 3840) \<and> (0::int) < 3840
   \<and> (16::int) * 2160 = 9 * 3840
   \<and> resize_to_aspect_ratio_with_zoom sample_collab \<lparr>im_size = (2160, 3840), pixels = []\<rparr>
        (9 / 16) (1080, 1920) = Inr \<lparr>im_size = (1080, 1920), pixels = []\<rparr>"
  using letterbox_same_aspect_no_padding[of "\<lparr>im_size = (2160, 3840), pixels = []\<rparr>" 2160 3840 sample_collab]
  by (simp add: sample_collab_def)

text \<open>
  Claim C4, as stated: both transformers return a frame of the target resolution for
  every source of nonzero dimensions. A source of 1 by 10000 pixels is narrower than
  9:16, its scaled width \<open>int(1920 * 0.0001)\<close> is 0, and the resize to (0, 1920) raises.
\<close>

theorem letterbox_extreme_aspect_raises:
  "resize_to_aspect_ratio_with_zoom sample_collab \<lparr>im_size = (1, 10000), pixels = []\<rparr>
     (9 / 16) (1080, 1920) = Inl (ValueError ''height and width must be > 0'')"
  by (simp add: resize_to_aspect_ratio_with_zoom_def scaled_size_def pil_resize_def py_int_def)

text \<open>
  Claim C4, amended. For every source frame of positive width \<open>w\<close> and height \<open>h\<close>,
  stretch-to-fill returns a frame of exactly 1080 by 1920; letterbox-fit returns a frame
  of exactly 1080 by 1920 when \<open>h \<le> 1920 * w\<close> and \<open>w \<le> 1080 * h\<close> (both scaled sides are
  at least one pixel), and otherwise raises the resize's \<open>ValueError\<close>.
\<close>

theorem frame_transformers_target_size:
  assumes "im_size img = (w, h)" and "0 < w" and "0 < h"
  shows "(\<exists>out. stretch_vertically_to_resolution env img (1080, 1920) = Inr out
                \<and> im_size out = (1080, 1920))
         \<and> (if h \<le> 1920 * w \<and> w \<le> 1080 * h
            then \<exists>out. resize_to_aspect_ratio_with_zoom env img (9 / 16) (1080, 1920) = Inr out
                       \<and> im_size out = (1080, 1920)
            else resize_to_aspect_ratio_with_zoom env img (9 / 16) (1080, 1920)
                   = Inl (ValueError ''height and width must be > 0''))"
proof -
  have 1: "\<exists>out. stretch_vertically_to_resolution env img (1080, 1920) = Inr out
                \<and> im_size out = (1080, 1920)"
    by (simp add: stretch_vertically_to_resolution_def pil_resize_def)
  have s: "scaled_size (im_size img) (9 / 16) (1080, 1920) =
           Inr (if 16 * w < 9 * h then ((1920 * w) div h, 1920) else (1080, (1080 * h) div w))"
    using scaled_size_default[OF assms(2,3)] assms(1) by simp
  have a: "(1 \<le> (1920 * w) div h) = (h \<le> 1920 * w)"
    using pos_imp_zdiv_pos_iff[OF assms(3), of "1920 * w"] by linarith
  have b: "(1 \<le> (1080 * h) div w) = (w \<le> 1080 * h)"
    using pos_imp_zdiv_pos_iff[OF assms(2), of "1080 * h"] by linarith
  have 2: "if h \<le> 1920 * w \<and> w \<le> 1080 * h
            then \<exists>out. resize_to_aspect_ratio_with_zoom env img (9 / 16) (1080, 1920) = Inr out
                       \<and> im_size out = (1080, 1920)
            else resize_to_aspect_ratio_with_zoom env img (9 / 16) (1080, 1920)
                   = Inl (ValueError ''height and width must be > 0'')"
  proof (cases "16 * w < 9 * h")
    case True
    then have w: "w \<le> 1080 * h" using assms(2,3) by linarith
    show ?thesis
    proof (cases "h \<le> 1920 * w")
      case T: True
      then have "1 \<le> (1920 * w) div h" using a by simp
      then show ?thesis using True T w
        by (simp add: s resize_to_aspect_ratio_with_zoom_def pil_resize_def pil_new_def)
    next
      case F: False
      then have "(1920 * w) div h < 1" using a by simp
      then show ?thesis using True F
        by (simp add: s resize_to_aspect_ratio_with_zoom_def pil_resize_def pil_new_def)
    qed
  next
    case False
    then have hh: "h \<le> 1920 * w" using assms(2,3) by linarith
    show ?thesis
    proof (cases "w \<le> 1080 * h")
      case T: True
      then have "1 \<le> (1080 * h) div w" using b by simp
      then show ?thesis using False T hh
        by (simp add: s resize_to_aspect_ratio_with_zoom_def pil_resize_def pil_new_def)
    next
      case F: False
      then have "(1080 * h) div w < 1" using b by simp
      then show ?thesis using False F
        by (simp add: s resize_to_aspect_ratio_with_zoom_def pil_resize_def pil_new_def)
    qed
  qed
  show ?thesis by (intro conjI 1 2)
qed

theorem frame_transformers_target_size_witness:
  "im_size \<lparr>im_size = (4000, 3000), pixels = []\<rparr> = (4000, 3000) \<and> (0::int) < 4000 \<and> (0::int) < 3000
   \<and> stretch_vertically_to_resolution sample_collab \<lparr>im_size = (4000, 3000), pixels = []\<rparr> (1080, 1920)
       = Inr \<lparr>im_size = (1080, 1920), pixels = []\<rparr>
   \<and> resize_to_aspect_ratio_with_zoom sample_collab \<lparr>im_size = (4000, 3000), pixels = []\<rparr> (9 / 16) (1080, 1920)
       = Inr \<lparr>im_size = (1080, 1920), pixels = []\<rparr>"
proof -
  have e: "stretch_vertically_to_resolution sample_collab \<lparr>im_size = (4000, 3000), pixels = []\<rparr> (1080, 1920)
       = Inr \<lparr>im_size = (1080, 1920), pixels = []\<rparr>
   \<and> resize_to_aspect_ratio_with_zoom sample_collab \<lparr>im_size = (4000, 3000), pixels = []\<rparr> (9 / 16) (1080, 1920)
       = Inr \<lparr>im_size = (1080, 1920), pixels = []\<rparr>"
    by (simp add: stretch_vertically_to_resolution_def resize_to_aspect_ratio_with_zoom_def
        scaled_size_def pil_resize_def pil_new_def py_int_def sample_collab_def)
  show ?thesis
    using frame_transformers_target_size[of "\<lparr>im_size = (4000, 3000), pixels = []\<rparr>" 4000 3000 sample_collab] e
    by simp
qed

section \<open>Runs that produce no clip\<close>

text \<open>
  Claim C1. With a caption that splits into no unit, the video path prints
  \<open>No clips were created.\<close> and writes nothing, but the image path has no such guard:
  it hands the empty list to \<open>concatenate_videoclips\<close>, which raises.
\<close>

theorem empty_caption_image_path_raises:
  "create_video_from_image_with_text sample_collab ''photo.png'' ''out.mp4'' [] ''font.ttf''
     50 (0, 0, 0) 15 ''zoom'' = Inl (ValueError ''max() arg is an empty sequence'')
   \<and> create_video_from_video_with_text sample_collab ''clip.mp4'' ''out.mp4'' [] ''font.ttf''
     50 (0, 0, 0) 15 ''zoom'' = Inr (Printed ''No clips were created.'')"
  by code_simp

section \<open>Captions are burned into copies\<close>

lemma image_clips_run:
  assumes "truetype env font_path font_size = Inr font"
  shows "base < length h \<Longrightarrow>
         image_clips env base sentences font_path font_size text_color sd h =
           Inr (map (\<lambda>s. set_duration
                           (image_sequence_clip [burn_caption env font s text_color (h ! base)] 24) sd)
                    sentences,
                h @ map (\<lambda>s. burn_caption env font s text_color (h ! base)) sentences)"
proof (induction sentences arbitrary: h)
  case Nil
  then show ?case by simp
next
  case (Cons s rest)
  let ?b = "burn_caption env font s text_color (h ! base)"
  let ?h2 = "h @ [?b]"
  have copy: "img_copy base h = (length h, h @ [h ! base])"
    by (simp add: img_copy_def img_new_def)
  have burn: "add_centered_text_with_outline env (length h) s font_path font_size text_color
                (h @ [h ! base]) = Inr (length h, ?h2)"
    by (simp add: add_centered_text_with_outline_def assms)
  have b2: "base < length ?h2" using Cons.prems by simp
  have same: "?h2 ! base = h ! base" using Cons.prems by (simp add: nth_append)
  have fr: "?h2 ! length h = ?b" by simp
  from Cons.IH[OF b2] have rec:
    "image_clips env base rest font_path font_size text_color sd ?h2 =
       Inr (map (\<lambda>s. set_duration
                       (image_sequence_clip [burn_caption env font s text_color (h ! base)] 24) sd)
                rest,
            ?h2 @ map (\<lambda>s. burn_caption env font s text_color (h ! base)) rest)"
    by (simp only: same)
  show ?case
    by (simp only: image_clips.simps copy burn rec fr split_conv sum.case Let_def list.map
        append_Cons append_Nil append_assoc)
qed

lemma process_frame_run:
  assumes "truetype env font_path font_size = Inr font"
      and "transform_frame env method frame = Inr transformed"
  shows "process_frame env method s font_path font_size text_color frame h =
           Inr (burn_caption env font s text_color transformed,
                h @ [transformed, burn_caption env font s text_color transformed])"
proof -
  have new: "img_new transformed h = (length h, h @ [transformed])"
    by (simp add: img_new_def)
  have copy: "img_copy (length h) (h @ [transformed]) = (Suc (length h), h @ [transformed, transformed])"
    by (simp add: img_copy_def img_new_def)
  have burn: "add_centered_text_with_outline env (Suc (length h)) s font_path font_size text_color
                (h @ [transformed, transformed]) =
              Inr (Suc (length h), h @ [transformed, burn_caption env font s text_color transformed])"
    by (simp add: add_centered_text_with_outline_def assms(1) nth_append list_update_append)
  have rd: "(h @ [transformed, burn_caption env font s text_color transformed]) ! Suc (length h)
              = burn_caption env font s text_color transformed"
    by (simp add: nth_append)
  show ?thesis
    by (simp only: process_frame_def assms(2) new copy burn rd split_conv sum.case)
qed

text \<open>
  Claim C9. The loop of the image path copies the shared base frame for every caption
  unit and draws on the copy: once the font loads, the loop returns, the base frame and
  every other object that existed before are unchanged, and the frame of each unit is
  the caption of that unit alone burned into the original base frame, so no text of
  one unit shows in another. On the video path each transformed frame is likewise
  copied before the text is drawn and stays as it was.
\<close>

theorem caption_burned_into_copy:
  assumes "base < length h" and "truetype env font_path font_size = Inr font"
  shows "(\<exists>clips h'.
           image_clips env base sentences font_path font_size text_color sd h = Inr (clips, h')
           \<and> h' ! base = h ! base
           \<and> take (length h) h' = h
           \<and> map frames clips =
               map (\<lambda>s. [burn_caption env font s text_color (h ! base)]) sentences)
         \<and> (\<forall>frame transformed.
               transform_frame env method frame = Inr transformed \<longrightarrow>
               process_frame env method s font_path font_size text_color frame h =
                 Inr (burn_caption env font s text_color transformed,
                      h @ [transformed, burn_caption env font s text_color transformed]))"
proof -
  let ?clips = "map (\<lambda>s. set_duration
                           (image_sequence_clip [burn_caption env font s text_color (h ! base)] 24) sd)
                    sentences"
  let ?h' = "h @ map (\<lambda>s. burn_caption env font s text_color (h ! base)) sentences"
  have run: "image_clips env base sentences font_path font_size text_color sd h = Inr (?clips, ?h')"
    by (rule image_clips_run[OF assms(2) assms(1)])
  have 1: "?h' ! base = h ! base" using assms(1) by (simp add: nth_append)
  have 2: "take (length h) ?h' = h" by simp
  have 3: "map frames ?clips = map (\<lambda>s. [burn_caption env font s text_color (h ! base)]) sentences"
    by (simp add: set_duration_def image_sequence_clip_def)
  from run 1 2 3 have a: "\<exists>clips h'.
           image_clips env base sentences font_path font_size text_color sd h = Inr (clips, h')
           \<and> h' ! base = h ! base
           \<and> take (length h) h' = h
           \<and> map frames clips =
               map (\<lambda>s. [burn_caption env font s text_color (h ! base)]) sentences" by blast
  have b: "\<forall>frame transformed.
               transform_frame env method frame = Inr transformed \<longrightarrow>
               process_frame env method s font_path font_size text_color frame h =
                 Inr (burn_caption env font s text_color transformed,
                      h @ [transformed, burn_caption env font s text_color transformed])"
    using process_frame_run[OF assms(2)] by blast
  show ?thesis by (intro conjI a b)
qed

theorem caption_burned_into_copy_witness:
  "(0::nat) < length [\<lparr>im_size = (1080, 1920), pixels = []::ink\<rparr>]
   \<and> truetype sample_collab ''font.ttf'' 50 = Inr 50
   \<and> map (\<lambda>c. map pixels (frames c))
        (fst (projr (image_clips sample_collab 0 [''Hi.'', ''Yo''] ''font.ttf'' 50 (255, 0, 0) 1
                 [\<lparr>im_size = (1080, 1920), pixels = []\<rparr>])))
      = map (\<lambda>s. [pixels (burn_caption sample_collab 50 s (255, 0, 0)
                       \<lparr>im_size = (1080, 1920), pixels = []\<rparr>)]) [''Hi.'', ''Yo'']
   \<and> snd (projr (image_clips sample_collab 0 [''Hi.'', ''Yo''] ''font.ttf'' 50 (255, 0, 0) 1
                 [\<lparr>im_size = (1080, 1920), pixels = []\<rparr>])) ! 0
      = \<lparr>im_size = (1080, 1920), pixels = []\<rparr>"
proof -
  have h1: "(0::nat) < length [\<lparr>im_size = (1080, 1920), pixels = []::ink\<rparr>]" by simp
  have h2: "truetype sample_collab ''font.ttf'' 50 = Inr 50" by (simp add: sample_collab_def)
  from conjunct1[OF caption_burned_into_copy[OF h1 h2, of "[''Hi.'', ''Yo'']" "(255, 0, 0)" 1]]
  obtain clips h' where r:
    "image_clips sample_collab 0 [''Hi.'', ''Yo''] ''font.ttf'' 50 (255, 0, 0) 1
        [\<lparr>im_size = (1080, 1920), pixels = []\<rparr>] = Inr (clips, h')"
    "h' ! 0 = [\<lparr>im_size = (1080, 1920), pixels = []::ink\<rparr>] ! 0"
    "map frames clips = map (\<lambda>s. [burn_caption sample_collab 50 s (255, 0, 0)
          ([\<lparr>im_size = (1080, 1920), pixels = []\<rparr>] ! 0)]) [''Hi.'', ''Yo'']"
    by blast
  have "map (\<lambda>c. map pixels (frames c)) clips = map (map pixels) (map frames clips)" by simp
  also have "\<dots> = map (\<lambda>s. [pixels (burn_caption sample_collab 50 s (255, 0, 0)
                       \<lparr>im_size = (1080, 1920), pixels = []\<rparr>)]) [''Hi.'', ''Yo'']"
    by (simp only: r(3)) simp
  finally have m: "map (\<lambda>c. map pixels (frames c)) clips = map (\<lambda>s. [pixels (burn_caption sample_collab 50 s (255, 0, 0)
                       \<lparr>im_size = (1080, 1920), pixels = []\<rparr>)]) [''Hi.'', ''Yo'']" .
  show ?thesis unfolding r(1) using h1 h2 m r(2) by simp
qed

section \<open>Durations of the caption units\<close>

lemma sentence_slices_units: "map (\<lambda>(s, e, u). u) (sentence_slices sd ss) = ss"
proof -
  have "map (\<lambda>(s, e, u). u) (sentence_slices sd ss) = map snd (enumerate 0 ss)"
    by (simp add: sentence_slices_def split_def comp_def)
  then show ?thesis by simp
qed

lemma sentence_slices_lengths:
  "map (\<lambda>(s, e, u). e - s) (sentence_slices sd ss) = replicate (length ss) sd"
proof -
  have "map (\<lambda>(s, e, u). e - s) (sentence_slices sd ss) = map (\<lambda>p. sd) (enumerate 0 ss)"
    by (simp add: sentence_slices_def split_def comp_def algebra_simps)
  then show ?thesis by (simp add: map_replicate_const)
qed

lemma per_sentence_total:
  "ss \<noteq> [] \<Longrightarrow> of_nat (length ss) * per_sentence total_duration ss = total_duration"
  by (simp add: per_sentence_def)

lemma frame_loop_run:
  assumes "truetype env font_path font_size = Inr font"
  shows "\<forall>f\<in>set fr. transform_frame env method f = Inr (tr f) \<Longrightarrow>
         frame_loop env method u font_path font_size text_color fr h =
           Inr (map (\<lambda>f. burn_caption env font u text_color (tr f)) fr,
                h @ concat (map (\<lambda>f. [tr f, burn_caption env font u text_color (tr f)]) fr))"
proof (induction fr arbitrary: h)
  case Nil
  then show ?case by simp
next
  case (Cons f fr)
  have t: "transform_frame env method f = Inr (tr f)" using Cons.prems by simp
  have rest: "\<forall>f\<in>set fr. transform_frame env method f = Inr (tr f)" using Cons.prems by simp
  note p = process_frame_run[OF assms t, of u text_color h]
  note r = Cons.IH[OF rest, of "h @ [tr f, burn_caption env font u text_color (tr f)]"]
  show ?case by (simp only: frame_loop.simps p r sum.case split_conv list.map concat.simps
        append_assoc append_Cons append_Nil)
qed

lemma video_clips_run:
  assumes "truetype env font_path font_size = Inr font"
  shows "\<forall>(s, e, u)\<in>set plan. \<forall>f\<in>set (frames_between v s e).
            transform_frame env method f = Inr (tr f) \<Longrightarrow>
         \<exists>h'. video_clips env v method font_path font_size text_color plan h =
           Inr (concat (map (\<lambda>(s, e, u).
                          if frames_between v s e = [] then []
                          else [image_sequence_clip
                                  (map (\<lambda>f. burn_caption env font u text_color (tr f))
                                       (frames_between v s e)) 24])
                        plan), h')"
proof (induction plan arbitrary: h)
  case Nil
  then show ?case by simp
next
  case (Cons x plan)
  obtain s e u where x: "x = (s, e, u)" by (cases x) auto
  have fr: "\<forall>f\<in>set (frames_between v s e). transform_frame env method f = Inr (tr f)"
    using Cons.prems x by simp
  have rest: "\<forall>(s, e, u)\<in>set plan. \<forall>f\<in>set (frames_between v s e).
            transform_frame env method f = Inr (tr f)"
    using Cons.prems by simp
  note f = frame_loop_run[OF assms fr, of u text_color h]
  from Cons.IH[OF rest] obtain h' where r:
    "video_clips env v method font_path font_size text_color plan
        (h @ concat (map (\<lambda>f. [tr f, burn_caption env font u text_color (tr f)])
                         (frames_between v s e))) =
       Inr (concat (map (\<lambda>(s, e, u).
                          if frames_between v s e = [] then []
                          else [image_sequence_clip
                                  (map (\<lambda>f. burn_caption env font u text_color (tr f))
                                       (frames_between v s e)) 24])
                        plan), h')"
    by blast
  have "video_clips env v method font_path font_size text_color (x # plan) h =
           Inr (concat (map (\<lambda>(s, e, u).
                          if frames_between v s e = [] then []
                          else [image_sequence_clip
                                  (map (\<lambda>f. burn_caption env font u text_color (tr f))
                                       (frames_between v s e)) 24])
                        (x # plan)), h')"
    unfolding x by (simp add: f r)
  then show ?case by blast
qed

lemma video_plan_slices:
  "split_sentences caption \<noteq> [] \<Longrightarrow>
   video_plan D v caption =
     map (\<lambda>(i, u). (of_nat i * (min D (duration v) / of_nat (length (split_sentences caption))),
                    (of_nat i + 1) * (min D (duration v) / of_nat (length (split_sentences caption))),
                    u))
         (enumerate 0 (split_sentences caption))"
  by (simp add: video_plan_def Let_def sentence_slices_def per_sentence_def)

text \<open>
  Claim C5. With \<open>N \<ge> 1\<close> caption units, the image path (when its collaborators
  succeed) writes \<open>N\<close> clips of duration \<open>D / N\<close> each, which sum to \<open>D\<close>. The video path
  (when its collaborators succeed) gives unit \<open>i\<close> the time slice from \<open>i * (E / N)\<close> to
  \<open>(i + 1) * (E / N)\<close>, where \<open>E = min D (duration of the source)\<close>, and builds the unit's
  clip from the source's frames within that slice, each transformed and captioned;
  a unit whose slice holds no frame gives no clip, and with no clip at all the run
  prints its message instead of writing. The slices are \<open>E / N\<close> long each and sum to
  \<open>E\<close>. The text \<open>Hello world. Goodbye!\<close> with \<open>D = 10\<close> has two units of 5 seconds each.
  Durations are exact rationals here.
\<close>

theorem unit_durations:
  assumes "split_sentences caption \<noteq> []"
      and "truetype env font_path font_size = Inr font"
      and "\<forall>final. write_videofile env out final = Inr ()"
  shows "(image_open env image_path = Inr opened \<and> transform_frame env how opened = Inr base \<longrightarrow>
           (\<exists>clips.
              create_video_from_image_with_text env image_path out caption font_path font_size
                text_color D how = Inr (Written out clips)
              \<and> length clips = length (split_sentences caption)
              \<and> (\<forall>c\<in>set clips. clip_duration c = D / of_nat (length (split_sentences caption)))
              \<and> sum_list (map clip_duration clips) = D))
         \<and> (video_open env video_path = Inr v
              \<and> (\<forall>s e. \<forall>f\<in>set (frames_between v s e). transform_frame env how f = Inr (tr f)) \<longrightarrow>
            create_video_from_video_with_text env video_path out caption font_path font_size
              text_color D how =
              (let clips =
                 concat (map (\<lambda>(i, u).
                    let start_time = of_nat i * (min D (duration v) / of_nat (length (split_sentences caption)));
                        end_time = (of_nat i + 1) * (min D (duration v) / of_nat (length (split_sentences caption)))
                    in if frames_between v start_time end_time = [] then []
                       else [image_sequence_clip
                               (map (\<lambda>f. burn_caption env font u text_color (tr f))
                                    (frames_between v start_time end_time)) 24])
                   (enumerate 0 (split_sentences caption)))
               in if clips \<noteq> [] then Inr (Written out clips)
                  else Inr (Printed ''No clips were created.'')))
         \<and> map (\<lambda>(s, e, u). u) (video_plan D v caption) = split_sentences caption
         \<and> (\<forall>(s, e, u)\<in>set (video_plan D v caption).
               e - s = min D (duration v) / of_nat (length (split_sentences caption)))
         \<and> sum_list (map (\<lambda>(s, e, u). e - s) (video_plan D v caption)) = min D (duration v)
         \<and> split_sentences ''Hello world. Goodbye!'' = [''Hello world.'', ''Goodbye!'']
         \<and> per_sentence 10 (split_sentences ''Hello world. Goodbye!'') = 5"
proof -
  let ?ss = "split_sentences caption"
  let ?sd = "per_sentence D ?ss"
  have a: "image_open env image_path = Inr opened \<and> transform_frame env how opened = Inr base \<longrightarrow>
           (\<exists>clips.
              create_video_from_image_with_text env image_path out caption font_path font_size
                text_color D how = Inr (Written out clips)
              \<and> length clips = length ?ss
              \<and> (\<forall>c\<in>set clips. clip_duration c = D / of_nat (length ?ss))
              \<and> sum_list (map clip_duration clips) = D)"
  proof
    assume io: "image_open env image_path = Inr opened \<and> transform_frame env how opened = Inr base"
    let ?clips = "map (\<lambda>s. set_duration
                     (image_sequence_clip [burn_caption env font s text_color ([base] ! 0)] 24) ?sd)
                   ?ss"
    have sd: "?sd = D / of_nat (length ?ss)" using assms(1) by (simp add: per_sentence_def)
    have run: "image_clips env 0 ?ss font_path font_size text_color ?sd [base] =
               Inr (?clips, [base] @ map (\<lambda>s. burn_caption env font s text_color ([base] ! 0)) ?ss)"
      by (rule image_clips_run[OF assms(2)]) simp
    have ne: "?clips \<noteq> []" using assms(1) by simp
    have wf: "write_final env ?clips out = Inr (Written out ?clips)"
      using ne assms(3) by (simp add: write_final_def concatenate_videoclips_def)
    have img: "create_video_from_image_with_text env image_path out caption font_path font_size
              text_color D how = Inr (Written out ?clips)"
      using io by (simp only: create_video_from_image_with_text_def run wf Let_def sum.case
          split_conv)
    have durs: "map clip_duration ?clips = replicate (length ?ss) ?sd"
      by (simp add: set_duration_def map_replicate_const comp_def)
    have a2: "\<forall>c\<in>set ?clips. clip_duration c = D / of_nat (length ?ss)"
      using sd by (simp add: set_duration_def)
    have a3: "sum_list (map clip_duration ?clips) = D"
      unfolding durs using per_sentence_total[OF assms(1), of D] by (simp add: sum_list_replicate)
    show "\<exists>clips.
            create_video_from_image_with_text env image_path out caption font_path font_size
              text_color D how = Inr (Written out clips)
            \<and> length clips = length ?ss
            \<and> (\<forall>c\<in>set clips. clip_duration c = D / of_nat (length ?ss))
            \<and> sum_list (map clip_duration clips) = D"
    proof (intro exI conjI)
      show "create_video_from_image_with_text env image_path out caption font_path font_size
              text_color D how = Inr (Written out ?clips)" by (rule img)
      show "length ?clips = length ?ss" by simp
      show "\<forall>c\<in>set ?clips. clip_duration c = D / of_nat (length ?ss)" by (rule a2)
      show "sum_list (map clip_duration ?clips) = D" by (rule a3)
    qed
  qed
  let ?E = "min D (duration v)"
  let ?unit = "\<lambda>(s, e, u).
                 if frames_between v s e = [] then []
                 else [image_sequence_clip
                         (map (\<lambda>f. burn_caption env font u text_color (tr f))
                              (frames_between v s e)) 24]"
  have slices: "video_plan D v caption =
     map (\<lambda>(i, u). (of_nat i * (?E / of_nat (length ?ss)),
                    (of_nat i + 1) * (?E / of_nat (length ?ss)), u))
         (enumerate 0 ?ss)"
    by (rule video_plan_slices[OF assms(1)])
  have vid: "video_open env video_path = Inr v
              \<and> (\<forall>s e. \<forall>f\<in>set (frames_between v s e). transform_frame env how f = Inr (tr f)) \<longrightarrow>
            create_video_from_video_with_text env video_path out caption font_path font_size
              text_color D how =
              (let clips =
                 concat (map (\<lambda>(i, u).
                    let start_time = of_nat i * (?E / of_nat (length ?ss));
                        end_time = (of_nat i + 1) * (?E / of_nat (length ?ss))
                    in if frames_between v start_time end_time = [] then []
                       else [image_sequence_clip
                               (map (\<lambda>f. burn_caption env font u text_color (tr f))
                                    (frames_between v start_time end_time)) 24])
                   (enumerate 0 ?ss))
               in if clips \<noteq> [] then Inr (Written out clips)
                  else Inr (Printed ''No clips were created.''))"
  proof
    assume vo: "video_open env video_path = Inr v
              \<and> (\<forall>s e. \<forall>f\<in>set (frames_between v s e). transform_frame env how f = Inr (tr f))"
    then have tr: "\<forall>(s, e, u)\<in>set (video_plan D v caption). \<forall>f\<in>set (frames_between v s e).
            transform_frame env how f = Inr (tr f)"
      by auto
    from video_clips_run[OF assms(2) tr, of text_color "[]"] obtain h' where r:
      "video_clips env v how font_path font_size text_color (video_plan D v caption) [] =
         Inr (concat (map ?unit (video_plan D v caption)), h')"
      by blast
    have cm: "concat (map ?unit (video_plan D v caption)) =
              concat (map (\<lambda>(i, u).
                    let start_time = of_nat i * (?E / of_nat (length ?ss));
                        end_time = (of_nat i + 1) * (?E / of_nat (length ?ss))
                    in if frames_between v start_time end_time = [] then []
                       else [image_sequence_clip
                               (map (\<lambda>f. burn_caption env font u text_color (tr f))
                                    (frames_between v start_time end_time)) 24])
                   (enumerate 0 ?ss))"
      unfolding slices by (simp add: comp_def split_def Let_def cong: if_cong)
    have wf: "cs \<noteq> [] \<Longrightarrow> write_final env cs out = Inr (Written out cs)" for cs
      using assms(3) by (simp add: write_final_def concatenate_videoclips_def)
    have "create_video_from_video_with_text env video_path out caption font_path font_size
              text_color D how =
            (let clips = concat (map ?unit (video_plan D v caption))
             in if clips \<noteq> [] then Inr (Written out clips)
                else Inr (Printed ''No clips were created.''))"
      using vo wf[of "concat (map ?unit (video_plan D v caption))"]
      by (simp add: create_video_from_video_with_text_def r Let_def)
    then show "create_video_from_video_with_text env video_path out caption font_path font_size
              text_color D how =
              (let clips =
                 concat (map (\<lambda>(i, u).
                    let start_time = of_nat i * (?E / of_nat (length ?ss));
                        end_time = (of_nat i + 1) * (?E / of_nat (length ?ss))
                    in if frames_between v start_time end_time = [] then []
                       else [image_sequence_clip
                               (map (\<lambda>f. burn_caption env font u text_color (tr f))
                                    (frames_between v start_time end_time)) 24])
                   (enumerate 0 ?ss))
               in if clips \<noteq> [] then Inr (Written out clips)
                  else Inr (Printed ''No clips were created.''))"
      by (simp only: cm)
  qed
  have plan: "video_plan D v caption = sentence_slices (per_sentence ?E ?ss) ?ss"
    by (simp add: video_plan_def Let_def)
  have sdv: "per_sentence ?E ?ss = ?E / of_nat (length ?ss)"
    using assms(1) by (simp add: per_sentence_def)
  have b: "map (\<lambda>(s, e, u). u) (video_plan D v caption) = ?ss"
    unfolding plan by (rule sentence_slices_units)
  have lens: "map (\<lambda>(s, e, u). e - s) (video_plan D v caption)
                = replicate (length ?ss) (?E / of_nat (length ?ss))"
    unfolding plan sentence_slices_lengths sdv ..
  have c: "\<forall>(s, e, u)\<in>set (video_plan D v caption). e - s = ?E / of_nat (length ?ss)"
  proof -
    have "\<forall>d\<in>set (map (\<lambda>(s, e, u). e - s) (video_plan D v caption)).
            d = ?E / of_nat (length ?ss)"
      unfolding lens by simp
    then show ?thesis by (auto simp: split_def)
  qed
  have d: "sum_list (map (\<lambda>(s, e, u). e - s) (video_plan D v caption)) = ?E"
    unfolding lens using assms(1) by (simp add: sum_list_replicate)
  have e: "split_sentences ''Hello world. Goodbye!'' = [''Hello world.'', ''Goodbye!'']"
    by code_simp
  have f: "per_sentence 10 (split_sentences ''Hello world. Goodbye!'') = 5"
    unfolding e by (simp add: per_sentence_def)
  show ?thesis by (intro conjI a vid b c d e f)
qed

theorem unit_durations_witness:
  "split_sentences ''Hello world. Goodbye!'' = [''Hello world.'', ''Goodbye!'']
   \<and> image_open sample_collab ''photo.png'' = Inr \<lparr>im_size = (1080, 1920), pixels = []\<rparr>
   \<and> transform_frame sample_collab ''zoom'' \<lparr>im_size = (1080, 1920), pixels = []\<rparr>
        = Inr \<lparr>im_size = (1080, 1920), pixels = []\<rparr>
   \<and> truetype sample_collab ''font.ttf'' 50 = Inr 50
   \<and> video_open sample_collab ''clip.mp4'' = Inr sample_video
   \<and> transform_frame sample_collab ''zoom'' \<lparr>im_size = (1920, 1080), pixels = []\<rparr>
        = Inr \<lparr>im_size = (1080, 1920), pixels = []\<rparr>
   \<and> map clip_duration
        (case create_video_from_image_with_text sample_collab ''photo.png'' ''out.mp4''
                ''Hello world. Goodbye!'' ''font.ttf'' 50 (0, 0, 0) 10 ''zoom'' of
           Inr (Written path clips) \<Rightarrow> clips | _ \<Rightarrow> []) = [5, 5]
   \<and> map (\<lambda>c. (length (frames c), clip_duration c))
        (case create_video_from_video_with_text sample_collab ''clip.mp4'' ''out.mp4''
                ''Hello world. Goodbye!'' ''font.ttf'' 50 (0, 0, 0) 10 ''zoom'' of
           Inr (Written path clips) \<Rightarrow> clips | _ \<Rightarrow> []) = [(36, 3 / 2), (36, 3 / 2)]
   \<and> map (\<lambda>(s, e, u). (s, e)) (video_plan 10 sample_video ''Hello world. Goodbye!'')
        = [(0, 3 / 2), (3 / 2, 3)]"
proof -
  let ?frame = "\<lparr>im_size = (1920, 1080), pixels = []::ink\<rparr>"
  let ?base = "\<lparr>im_size = (1080, 1920), pixels = []::ink\<rparr>"
  have e: "split_sentences ''Hello world. Goodbye!'' = [''Hello world.'', ''Goodbye!'']"
    by code_simp
  have h1: "split_sentences ''Hello world. Goodbye!'' \<noteq> []" unfolding e by simp
  have h2: "image_open sample_collab ''photo.png'' = Inr ?base"
    by (simp add: sample_collab_def)
  have h3: "transform_frame sample_collab ''zoom'' ?base = Inr ?base"
    by (simp add: transform_frame_def resize_to_aspect_ratio_with_zoom_def scaled_size_def
        pil_resize_def pil_new_def py_int_def sample_collab_def)
  have h4: "truetype sample_collab ''font.ttf'' 50 = Inr 50" by (simp add: sample_collab_def)
  have h5: "\<forall>final. write_videofile sample_collab ''out.mp4'' final = Inr ()"
    by (simp add: sample_collab_def)
  have h6: "video_open sample_collab ''clip.mp4'' = Inr sample_video"
    by (simp add: sample_collab_def)
  have h7: "transform_frame sample_collab ''zoom'' ?frame = Inr ?base"
    by (simp add: transform_frame_def resize_to_aspect_ratio_with_zoom_def scaled_size_def
        pil_resize_def pil_new_def py_int_def sample_collab_def)
  have h8: "\<forall>s e. \<forall>f\<in>set (frames_between sample_video s e).
              transform_frame sample_collab ''zoom'' f = Inr ((\<lambda>f. ?base) f)"
    using h7 by (simp add: sample_video_def)
  note t = unit_durations[OF h1 h4 h5, where image_path = "''photo.png''" and opened = ?base
      and how = "''zoom''" and base = ?base and text_color = "(0, 0, 0)" and D = 10
      and video_path = "''clip.mp4''" and v = sample_video and tr = "\<lambda>f. ?base"]
  from conjunct1[OF t] h2 h3 obtain clips where c:
    "create_video_from_image_with_text sample_collab ''photo.png'' ''out.mp4''
        ''Hello world. Goodbye!'' ''font.ttf'' 50 (0, 0, 0) 10 ''zoom'' = Inr (Written ''out.mp4'' clips)"
    "length clips = length (split_sentences ''Hello world. Goodbye!'')"
    "\<forall>c\<in>set clips. clip_duration c = 10 / of_nat (length (split_sentences ''Hello world. Goodbye!''))"
    by blast
  from c(2) obtain c1 c2 where cl: "clips = [c1, c2]"
    unfolding e by (cases clips; cases "tl clips"; auto)
  have d: "map clip_duration clips = [5, 5]" using c(3) unfolding e cl by simp
  have fb: "frames_between sample_video 0 (3 / 2) = replicate 36 ?frame"
    "frames_between sample_video (3 / 2) 3 = replicate 36 ?frame"
    by (simp_all add: sample_video_def)
  have du: "duration sample_video = 3" by (simp add: sample_video_def)
  from conjunct1[OF conjunct2[OF t]] h6 h8
  have "create_video_from_video_with_text sample_collab ''clip.mp4'' ''out.mp4''
          ''Hello world. Goodbye!'' ''font.ttf'' 50 (0, 0, 0) 10 ''zoom'' =
        Inr (Written ''out.mp4''
          [image_sequence_clip
             (map (\<lambda>f. burn_caption sample_collab 50 ''Hello world.'' (0, 0, 0) ?base)
                  (replicate 36 ?frame)) 24,
           image_sequence_clip
             (map (\<lambda>f. burn_caption sample_collab 50 ''Goodbye!'' (0, 0, 0) ?base)
                  (replicate 36 ?frame)) 24])"
    by (simp add: e du fb enumerate_eq_zip upt_rec Let_def)
  then have v: "map (\<lambda>c. (length (frames c), clip_duration c))
        (case create_video_from_video_with_text sample_collab ''clip.mp4'' ''out.mp4''
                ''Hello world. Goodbye!'' ''font.ttf'' 50 (0, 0, 0) 10 ''zoom'' of
           Inr (Written path clips) \<Rightarrow> clips | _ \<Rightarrow> []) = [(36, 3 / 2), (36, 3 / 2)]"
    by (simp add: image_sequence_clip_def)
  have p: "map (\<lambda>(s, e, u). (s, e)) (video_plan 10 sample_video ''Hello world. Goodbye!'')
        = [(0, 3 / 2), (3 / 2, 3)]"
    by (simp add: video_plan_def e per_sentence_def sentence_slices_def sample_video_def
        enumerate_eq_zip upt_rec Let_def)
  show ?thesis unfolding c(1) using e h2 h3 h4 h6 h7 d v p by simp
qed

section \<open>Dispatch on the file extension\<close>

lemma lower_char_fixed:
  assumes "(of_char d :: nat) < 97" and "\<not> (65 \<le> (of_char d :: nat) \<and> (of_char d :: nat) \<le> 90)"
  shows "(lower_char c = d) = (c = d)"
proof (cases "(65 \<le> (of_char c :: nat) \<and> (of_char c :: nat) \<le> 90)
              \<or> (192 \<le> (of_char c :: nat) \<and> (of_char c :: nat) \<le> 222 \<and> (of_char c :: nat) \<noteq> 215)")
  case True
  then have l: "lower_char c = char_of ((of_char c :: nat) + 32)"
    by (simp add: lower_char_def Let_def)
  have "(of_char (lower_char c) :: nat) = ((of_char c :: nat) + 32) mod 256"
    unfolding l by (rule of_char_of)
  also have "\<dots> = (of_char c :: nat) + 32" using True by auto
  finally have v: "(of_char (lower_char c) :: nat) = of_char c + 32" .
  have 1: "lower_char c \<noteq> d"
  proof
    assume "lower_char c = d"
    with v have "(of_char d :: nat) = of_char c + 32" by simp
    with True assms(1) show False by auto
  qed
  have 2: "c \<noteq> d"
  proof
    assume "c = d"
    with True assms show False by auto
  qed
  from 1 2 show ?thesis by simp
next
  case False
  then have "lower_char c = c" by (auto simp: lower_char_def Let_def)
  then show ?thesis by simp
qed

lemma lower_char_idem: "lower_char (lower_char c) = lower_char c"
proof (cases "(65 \<le> (of_char c :: nat) \<and> (of_char c :: nat) \<le> 90)
              \<or> (192 \<le> (of_char c :: nat) \<and> (of_char c :: nat) \<le> 222 \<and> (of_char c :: nat) \<noteq> 215)")
  case True
  then have l: "lower_char c = char_of ((of_char c :: nat) + 32)"
    by (simp add: lower_char_def Let_def)
  have "(of_char (lower_char c) :: nat) = ((of_char c :: nat) + 32) mod 256"
    unfolding l by (rule of_char_of)
  also have "\<dots> = (of_char c :: nat) + 32" using True by auto
  finally have v: "(of_char (lower_char c) :: nat) = of_char c + 32" .
  have "\<not> ((65 \<le> (of_char (lower_char c) :: nat) \<and> (of_char (lower_char c) :: nat) \<le> 90)
              \<or> (192 \<le> (of_char (lower_char c) :: nat) \<and> (of_char (lower_char c) :: nat) \<le> 222
                  \<and> (of_char (lower_char c) :: nat) \<noteq> 215))"
    unfolding v using True by auto
  then show ?thesis by (auto simp: lower_char_def[of "lower_char c"] Let_def)
next
  case False
  then have "lower_char c = c" by (auto simp: lower_char_def Let_def)
  then show ?thesis by simp
qed

lemma lower_idem: "lower (lower s) = lower s"
  by (simp add: lower_def lower_char_idem)

lemma rfind_map:
  "(\<And>c. P (f c) = P c) \<Longrightarrow> rfind P (map f p) = rfind P p"
proof -
  assume a: "\<And>c. P (f c) = P c"
  have "filter (\<lambda>i. P (map f p ! i)) (rev [0..<length p]) = filter (\<lambda>i. P (p ! i)) (rev [0..<length p])"
    by (rule filter_cong) (auto simp: a)
  then show ?thesis by (simp add: rfind_def)
qed

lemma is_dot_lower: "(lower_char c = CHR ''.'') = (c = CHR ''.'')"
  by (rule lower_char_fixed) simp_all

lemma is_sep_lower: "(lower_char c \<in> set (seps os)) = (c \<in> set (seps os))"
proof -
  have s: "(lower_char c = CHR ''/'') = (c = CHR ''/'')" by (rule lower_char_fixed) simp_all
  have b: "(lower_char c = CHR 0x5C) = (c = CHR 0x5C)" by (rule lower_char_fixed) simp_all
  show ?thesis by (cases os) (simp_all add: seps_def s b)
qed

lemma splitext_lower:
  "splitext os (lower p) = (lower (fst (splitext os p)), lower (snd (splitext os p)))"
proof -
  have sep: "rfind (\<lambda>c. c \<in> set (seps os)) (lower p) = rfind (\<lambda>c. c \<in> set (seps os)) p"
    unfolding lower_def by (rule rfind_map) (rule is_sep_lower)
  have dot: "rfind (\<lambda>c. c = CHR ''.'') (lower p) = rfind (\<lambda>c. c = CHR ''.'') p"
    unfolding lower_def by (rule rfind_map) (rule is_dot_lower)
  have ex: "list_ex (\<lambda>c. c \<noteq> CHR ''.'') (take n (drop m (lower p)))
            = list_ex (\<lambda>c. c \<noteq> CHR ''.'') (take n (drop m p))" for n m
  proof -
    have "take n (drop m (lower p)) = map lower_char (take n (drop m p))"
      by (simp add: lower_def take_map drop_map)
    then show ?thesis by (simp add: list_ex_iff is_dot_lower)
  qed
  show ?thesis
    unfolding splitext_def sep dot ex Let_def
    by (simp add: lower_def take_map drop_map)
qed

lemma lower_ext_lower: "lower_ext os (lower p) = lower_ext os p"
  by (simp add: lower_ext_def splitext_lower lower_idem)

text \<open>
  Claim C8. The dispatcher looks at the lower-cased extension of the input path only:
  an image extension gives the image pipeline, a video extension the video pipeline,
  and any other extension gives \<open>ValueError: Unsupported file format\<close> whatever the
  collaborators are, so before any of them is called. Two paths that differ only in
  letter case have the same lower-cased extension.
\<close>

theorem dispatcher_by_extension:
  "(lower_ext (os_name env) p \<in> set image_extensions \<longrightarrow>
      create_video_from_media_with_text env p out caption font_path font_size text_color D method
        = create_video_from_image_with_text env p out caption font_path font_size text_color D method)
   \<and> (lower_ext (os_name env) p \<in> set video_extensions \<longrightarrow>
      create_video_from_media_with_text env p out caption font_path font_size text_color D method
        = create_video_from_video_with_text env p out caption font_path font_size text_color D method)
   \<and> (lower_ext (os_name env) p \<notin> set image_extensions
        \<and> lower_ext (os_name env) p \<notin> set video_extensions \<longrightarrow>
      create_video_from_media_with_text env p out caption font_path font_size text_color D method
        = Inl (ValueError ''Unsupported file format''))
   \<and> lower_ext os p = lower (snd (splitext os p))
   \<and> (lower q = lower p \<longrightarrow> lower_ext os q = lower_ext os p)"
proof -
  have disj: "e \<in> set video_extensions \<Longrightarrow> e \<notin> set image_extensions" for e
    by (auto simp: video_extensions_def image_extensions_def)
  have 1: "lower_ext (os_name env) p \<in> set image_extensions \<longrightarrow>
      create_video_from_media_with_text env p out caption font_path font_size text_color D method
        = create_video_from_image_with_text env p out caption font_path font_size text_color D method"
    by (simp add: create_video_from_media_with_text_def)
  have 2: "lower_ext (os_name env) p \<in> set video_extensions \<longrightarrow>
      create_video_from_media_with_text env p out caption font_path font_size text_color D method
        = create_video_from_video_with_text env p out caption font_path font_size text_color D method"
    using disj[of "lower_ext (os_name env) p"] by (simp add: create_video_from_media_with_text_def)
  have 3: "lower_ext (os_name env) p \<notin> set image_extensions
        \<and> lower_ext (os_name env) p \<notin> set video_extensions \<longrightarrow>
      create_video_from_media_with_text env p out caption font_path font_size text_color D method
        = Inl (ValueError ''Unsupported file format'')"
    by (simp add: create_video_from_media_with_text_def)
  have 4: "lower_ext os p = lower (snd (splitext os p))" by (simp add: lower_ext_def)
  have 5: "lower q = lower p \<longrightarrow> lower_ext os q = lower_ext os p"
  proof
    assume "lower q = lower p"
    then have "lower_ext os (lower q) = lower_ext os (lower p)" by simp
    then show "lower_ext os q = lower_ext os p" by (simp only: lower_ext_lower)
  qed
  show ?thesis by (intro conjI 1 2 3 4 5)
qed

theorem dispatcher_by_extension_witness:
  "lower_ext Posix ''holiday.JPG'' = ''.jpg'' \<and> lower_ext Posix ''clip.Mp4'' = ''.mp4''
   \<and> lower_ext Posix ''notes.txt'' = ''.txt''
   \<and> lower ''CLIP.MP4'' = lower ''clip.Mp4''
   \<and> create_video_from_media_with_text sample_collab ''notes.txt'' ''out.mp4'' ''Hi.'' ''font.ttf''
        50 (0, 0, 0) 10 ''zoom'' = Inl (ValueError ''Unsupported file format'')
   \<and> create_video_from_media_with_text sample_collab ''holiday.JPG'' ''out.mp4'' ''Hi.'' ''font.ttf''
        50 (0, 0, 0) 10 ''zoom''
      = create_video_from_image_with_text sample_collab ''holiday.JPG'' ''out.mp4'' ''Hi.'' ''font.ttf''
        50 (0, 0, 0) 10 ''zoom''
   \<and> lower_ext Posix ''CLIP.MP4'' = lower_ext Posix ''clip.Mp4''"
proof -
  have e: "lower_ext Posix ''holiday.JPG'' = ''.jpg'' \<and> lower_ext Posix ''clip.Mp4'' = ''.mp4''
   \<and> lower_ext Posix ''notes.txt'' = ''.txt'' \<and> lower ''CLIP.MP4'' = lower ''clip.Mp4''"
    by code_simp
  have o: "os_name sample_collab = Posix" by (simp add: sample_collab_def)
  have m: "''.jpg'' \<in> set image_extensions" "''.txt'' \<notin> set image_extensions"
    "''.txt'' \<notin> set video_extensions"
    by (simp_all add: image_extensions_def video_extensions_def)
  note a = dispatcher_by_extension[of sample_collab "''notes.txt''" "''out.mp4''" "''Hi.''"
      "''font.ttf''" 50 "(0, 0, 0)" 10 "''zoom''" Posix "''CLIP.MP4''"]
  note b = dispatcher_by_extension[of sample_collab "''holiday.JPG''" "''out.mp4''" "''Hi.''"
      "''font.ttf''" 50 "(0, 0, 0)" 10 "''zoom''" Posix "''CLIP.MP4''"]
  note c = dispatcher_by_extension[of sample_collab "''clip.Mp4''" "''out.mp4''" "''Hi.''"
      "''font.ttf''" 50 "(0, 0, 0)" 10 "''zoom''" Posix "''CLIP.MP4''"]
  have 1: "create_video_from_media_with_text sample_collab ''notes.txt'' ''out.mp4'' ''Hi.'' ''font.ttf''
        50 (0, 0, 0) 10 ''zoom'' = Inl (ValueError ''Unsupported file format'')"
    using a e m by (simp add: o)
  have 2: "create_video_from_media_with_text sample_collab ''holiday.JPG'' ''out.mp4'' ''Hi.'' ''font.ttf''
        50 (0, 0, 0) 10 ''zoom''
      = create_video_from_image_with_text sample_collab ''holiday.JPG'' ''out.mp4'' ''Hi.'' ''font.ttf''
        50 (0, 0, 0) 10 ''zoom''"
    using b e m by (simp add: o)
  have 3: "lower_ext Posix ''CLIP.MP4'' = lower_ext Posix ''clip.Mp4''"
    using c e by blast
  from e 1 2 3 show ?thesis by blast
qed

end
